theory Spec2Isabelle
  imports Main "HOL-Library.AList" "HOL-Library.Char_ord" "HOL-Library.List_Lexorder"
begin

section \<open>Data model (types.ts)\<close>

text \<open>
  Subject identities, block numbers, capacities and costs are JavaScript numbers that
  only ever hold integers (the configuration form parses them with \<open>parseInt\<close>);
  they are modelled as \<open>int\<close>. Student codes and section ids are strings.
  A JavaScript \<open>Map\<close> iterates in insertion order, so a \<open>Map\<close> that is iterated is an
  association list: \<open>map_of\<close> is \<open>get\<close>, \<open>AList.update\<close> is \<open>set\<close> (it replaces the value
  of a present key in place and appends an absent one), \<open>AList.delete\<close> is \<open>delete\<close>.
  A \<open>Set\<close> of strings is the list of its members in insertion order.
\<close>

record Subject =
  subj_id :: int
  subj_name :: string
  subj_capacity :: int
  subj_s1_block :: int
  subj_s2_block :: int

record ConfigEntry =
  s1_block :: int
  s2_block :: int
  cfg_capacity :: int

type_synonym ScheduleConfig = "int \<Rightarrow> ConfigEntry option"

record Section =
  sec_id :: string
  subjectId :: int
  subjectName :: string
  block :: int
  students :: "string list"
  capacity :: int

type_synonym Sections = "(string \<times> Section) list"

type_synonym Assignment = "(int \<times> string) list"

type_synonym ConflictMap = "(string \<times> string list) list"

datatype BalancingStrategy = speed | equitable

datatype Preference = manana | tarde

section \<open>Section identifiers\<close>

text \<open>
  The template literal \<open>`${subjectId}.${sectionIdSuffix}`\<close> renders the subject id in
  decimal, with a leading minus sign for a negative id.
\<close>

definition digitChar :: "nat \<Rightarrow> char" where
  "digitChar d = ''0123456789'' ! d"

fun digitsOf :: "nat \<Rightarrow> string" where
  "digitsOf n = (if n < 10 then [digitChar n] else digitsOf (n div 10) @ [digitChar (n mod 10)])"

declare digitsOf.simps [simp del]

definition numberToString :: "int \<Rightarrow> string" where
  "numberToString i = (if i < 0 then CHR ''-'' # digitsOf (nat (- i)) else digitsOf (nat i))"

definition sectionIdOf :: "int \<Rightarrow> string \<Rightarrow> string" where
  "sectionIdOf subjId sectionIdSuffix = numberToString subjId @ ''.'' @ sectionIdSuffix"

definition endsWith :: "string \<Rightarrow> string \<Rightarrow> bool" where
  "endsWith s t = (length t \<le> length s \<and> drop (length s - length t) s = t)"

section \<open>Feasible-combination search (findValidAssignments)\<close>

definition conflictsOf :: "ConflictMap \<Rightarrow> string \<Rightarrow> string list" where
  "conflictsOf conflictMap studentCode =
     (case map_of conflictMap studentCode of None \<Rightarrow> [] | Some s \<Rightarrow> s)"

definition hasConflict :: "string list \<Rightarrow> string list \<Rightarrow> bool" where
  "hasConflict studentConflicts occupants =
     (studentConflicts \<noteq> [] \<and> (\<exists>c \<in> set occupants. c \<in> set studentConflicts))"

definition isFull :: "Section \<Rightarrow> bool" where
  "isFull section = (int (length (students section)) \<ge> capacity section)"

text \<open>
  The mutable state of one search: the map \<open>currentAssignment\<close> and the set
  \<open>usedBlocks\<close> that \<open>backtrack\<close> updates and restores, and the output array
  \<open>validAssignments\<close>.
\<close>

record SearchState =
  currentAssignment :: Assignment
  usedBlocks :: "int set"
  validAssignments :: "Assignment list"

text \<open>
  \<open>processSection\<close> is the closure of the same name; \<open>recurse\<close> stands for the call
  \<open>backtrack(subjectIndex + 1, currentAssignment, usedBlocks)\<close>.
\<close>

definition processSection ::
  "Sections \<Rightarrow> string list \<Rightarrow> int \<Rightarrow> (SearchState \<Rightarrow> SearchState) \<Rightarrow> int \<Rightarrow> string
     \<Rightarrow> SearchState \<Rightarrow> SearchState" where
  "processSection sections studentConflicts subjId recurse blk sectionIdSuffix st =
     (if blk \<in> usedBlocks st then st
      else
        let sectionId = sectionIdOf subjId sectionIdSuffix in
        case map_of sections sectionId of
          None \<Rightarrow> st
        | Some section \<Rightarrow>
            if isFull section then st
            else if hasConflict studentConflicts (students section) then st
            else
              let st1 = st\<lparr>currentAssignment := AList.update subjId sectionId (currentAssignment st),
                           usedBlocks := insert blk (usedBlocks st)\<rparr>;
                  st2 = recurse st1
              in st2\<lparr>usedBlocks := usedBlocks st2 - {blk},
                     currentAssignment := AList.delete subjId (currentAssignment st2)\<rparr>)"

text \<open>
  \<open>backtrack\<close> recurses on the subjects from \<open>subjectIndex\<close> on: the empty list is
  \<open>subjectIndex === studentSubjects.length\<close>.
\<close>

primrec backtrack ::
  "ScheduleConfig \<Rightarrow> Sections \<Rightarrow> string list \<Rightarrow> int list \<Rightarrow> SearchState \<Rightarrow> SearchState" where
  "backtrack scheduleConfig sections studentConflicts [] st =
     st\<lparr>validAssignments := validAssignments st @ [currentAssignment st]\<rparr>"
| "backtrack scheduleConfig sections studentConflicts (subjId # rest) st =
     (case scheduleConfig subjId of
        None \<Rightarrow> st
      | Some config \<Rightarrow>
          processSection sections studentConflicts subjId
            (backtrack scheduleConfig sections studentConflicts rest) (s2_block config) ''2''
            (processSection sections studentConflicts subjId
              (backtrack scheduleConfig sections studentConflicts rest) (s1_block config) ''1'' st))"

definition findValidAssignments ::
  "int list \<Rightarrow> string \<Rightarrow> ConflictMap \<Rightarrow> Sections \<Rightarrow> ScheduleConfig \<Rightarrow> Assignment list" where
  "findValidAssignments studentSubjects studentCode conflictMap sections scheduleConfig =
     validAssignments
       (backtrack scheduleConfig sections (conflictsOf conflictMap studentCode) studentSubjects
          \<lparr>currentAssignment = [], usedBlocks = {}, validAssignments = []\<rparr>)"

section \<open>Cost of an assignment (calculateAssignmentCost)\<close>

text \<open>
  Exceptions are values. \<open>TypeError\<close> is the JavaScript error of reading a property of
  \<open>undefined\<close>; the other three are the \<open>Error\<close>s that \<open>scheduleStudents\<close> throws for
  the preassigned students (they carry the student code, the section id and, for a
  conflict, the other student; the display names of the message text are left out).
\<close>

datatype error =
    TypeError
  | PreassignFull string string
  | PreassignInvalidSection string string
  | PreassignConflict string string string

type_synonym CurrentSectionSizes = "(string \<times> int) list"

definition sizeOrZero :: "CurrentSectionSizes \<Rightarrow> string \<Rightarrow> int" where
  "sizeOrZero sectionSizes sectionId =
     (case map_of sectionSizes sectionId of None \<Rightarrow> 0 | Some n \<Rightarrow> n)"

definition baseCost :: "BalancingStrategy \<Rightarrow> CurrentSectionSizes \<Rightarrow> Assignment \<Rightarrow> int" where
  "baseCost balancingStrategy sectionSizes assignment =
     (if balancingStrategy = equitable
      then fold (\<lambda>sectionId cost. cost + (sizeOrZero sectionSizes sectionId)\<^sup>2)
             (map snd assignment) 0
      else fold (\<lambda>sectionId cost. cost + sizeOrZero sectionSizes sectionId)
             (map snd assignment) 0)"

fun preferenceMismatchPenalty ::
  "ScheduleConfig \<Rightarrow> Preference \<Rightarrow> Assignment \<Rightarrow> int \<Rightarrow> error + int" where
  "preferenceMismatchPenalty scheduleConfig preference [] penalty = Inr penalty"
| "preferenceMismatchPenalty scheduleConfig preference ((subjId, sectionId) # rest) penalty =
     (case scheduleConfig subjId of
        None \<Rightarrow> Inl TypeError
      | Some config \<Rightarrow>
          let blk = (if endsWith sectionId ''.1'' then s1_block config else s2_block config);
              blockTime = (if blk = 3 then tarde else manana);
              penalty1 = (if preference = manana \<and> blockTime = tarde
                          then penalty + 10 else penalty);
              penalty2 = (if preference = tarde \<and> blockTime = manana
                          then penalty1 + 5 else penalty1)
          in preferenceMismatchPenalty scheduleConfig preference rest penalty2)"

definition calculateAssignmentCost ::
  "Assignment \<Rightarrow> CurrentSectionSizes \<Rightarrow> Preference option \<Rightarrow> ScheduleConfig
     \<Rightarrow> BalancingStrategy \<Rightarrow> error + int" where
  "calculateAssignmentCost assignment sectionSizes preference scheduleConfig balancingStrategy =
     (let cost = baseCost balancingStrategy sectionSizes assignment in
      case preference of
        None \<Rightarrow> Inr cost
      | Some pref \<Rightarrow>
          (case preferenceMismatchPenalty scheduleConfig pref assignment 0 of
             Inl e \<Rightarrow> Inl e
           | Inr penalty \<Rightarrow> Inr (cost + penalty)))"

section \<open>Failure diagnosis (diagnoseFailure)\<close>

datatype FailureType = CAPACITY | SCHEDULE | CONFLICT | UNKNOWN

text \<open>
  The \<open>reason\<close> text is kept as its parts: the subject named by a capacity failure; for
  a conflict, the blocking students as (name, code) and the suggested replacement as
  (subject to drop, subject to take) when one was found.
\<close>

datatype Reason =
    CapacityReason string
  | ScheduleReason
  | ConflictReason "(string \<times> string) list" "(string \<times> string) option"
  | UnknownReason

record Diagnosis =
  d_type :: FailureType
  d_reason :: Reason
  d_subjects :: "string list"
  d_conflictingSubjects :: "string list"

record UnassignedStudentInfo = Diagnosis +
  u_studentCode :: string

definition setAdd :: "'a \<Rightarrow> 'a list \<Rightarrow> 'a list" where
  "setAdd x s = (if x \<in> set s then s else s @ [x])"

definition getSubjectNameById :: "Subject list \<Rightarrow> int \<Rightarrow> string" where
  "getSubjectNameById allSubjects i =
     (case find (\<lambda>s. subj_id s = i) allSubjects of
        Some subject \<Rightarrow> subj_name subject
      | None \<Rightarrow> ''ID de Asignatura Desconocido '' @ numberToString i)"

definition bothSectionsFull :: "ScheduleConfig \<Rightarrow> Sections \<Rightarrow> int \<Rightarrow> bool" where
  "bothSectionsFull scheduleConfig sections subjId =
     (case scheduleConfig subjId of
        None \<Rightarrow> False
      | Some config \<Rightarrow>
          (case map_of sections (sectionIdOf subjId ''1'') of
             None \<Rightarrow> False
           | Some section1 \<Rightarrow>
               isFull section1 \<and>
               (case map_of sections (sectionIdOf subjId ''2'') of
                  None \<Rightarrow> False
                | Some section2 \<Rightarrow> isFull section2)))"

definition sameBlockSets :: "ConfigEntry \<Rightarrow> ConfigEntry \<Rightarrow> bool" where
  "sameBlockSets subA subB =
     (card {s1_block subA, s2_block subA} = card {s1_block subB, s2_block subB} \<and>
      (\<forall>b \<in> {s1_block subA, s2_block subA}. b \<in> {s1_block subB, s2_block subB}))"

fun conflictingPairs ::
  "ScheduleConfig \<Rightarrow> Subject list \<Rightarrow> int list \<Rightarrow> string list \<Rightarrow> string list" where
  "conflictingPairs scheduleConfig allSubjects [] names = names"
| "conflictingPairs scheduleConfig allSubjects (si # rest) names =
     conflictingPairs scheduleConfig allSubjects rest
       (fold (\<lambda>sj acc.
               case (scheduleConfig si, scheduleConfig sj) of
                 (Some subA, Some subB) \<Rightarrow>
                   if sameBlockSets subA subB
                   then setAdd (getSubjectNameById allSubjects sj)
                          (setAdd (getSubjectNameById allSubjects si) acc)
                   else acc
               | _ \<Rightarrow> acc)
          rest names)"

definition blockingStudentsFor :: "Sections \<Rightarrow> string list \<Rightarrow> Assignment \<Rightarrow> string list" where
  "blockingStudentsFor sections studentConflicts schedule =
     fold (\<lambda>sectionId acc.
            case map_of sections sectionId of
              None \<Rightarrow> acc
            | Some section \<Rightarrow>
                fold (\<lambda>assignedStudentCode acc'.
                       if assignedStudentCode \<in> set studentConflicts
                       then setAdd assignedStudentCode acc' else acc')
                  (students section) acc)
       (map snd schedule) []"

definition displayName :: "(string \<Rightarrow> string option) \<Rightarrow> string \<Rightarrow> string" where
  "displayName studentCodeToName code =
     (case studentCodeToName code of
        None \<Rightarrow> ''Desconocido''
      | Some n \<Rightarrow> if n = [] then ''Desconocido'' else n)"

definition findSuggestion ::
  "Subject list \<Rightarrow> string \<Rightarrow> int list \<Rightarrow> ConflictMap \<Rightarrow> Sections \<Rightarrow> ScheduleConfig
     \<Rightarrow> (string \<times> string) option" where
  "findSuggestion allSubjects studentCode studentSubjects conflictMap sections scheduleConfig =
     (let otherAvailableSubjectIds =
            filter (\<lambda>i. i \<notin> set studentSubjects) (map subj_id allSubjects) in
      case find (\<lambda>(subjectToReplaceId, newSubjectId).
                   findValidAssignments
                     (filter (\<lambda>i. i \<noteq> subjectToReplaceId) studentSubjects @ [newSubjectId])
                     studentCode conflictMap sections scheduleConfig \<noteq> [])
             (List.product studentSubjects otherAvailableSubjectIds) of
        None \<Rightarrow> None
      | Some (subjectToReplaceId, newSubjectId) \<Rightarrow>
          Some (getSubjectNameById allSubjects subjectToReplaceId,
                getSubjectNameById allSubjects newSubjectId))"

definition diagnoseFailure ::
  "Subject list \<Rightarrow> string \<Rightarrow> int list \<Rightarrow> ConflictMap \<Rightarrow> Sections
     \<Rightarrow> (string \<Rightarrow> string option) \<Rightarrow> ScheduleConfig \<Rightarrow> Diagnosis" where
  "diagnoseFailure allSubjects studentCode studentSubjects conflictMap sections
       studentCodeToName scheduleConfig =
     (let allSubjectNames = map (getSubjectNameById allSubjects) studentSubjects;
          potentialSchedules = findValidAssignments studentSubjects [] [] sections scheduleConfig
      in
      if potentialSchedules = [] then
        (case find (bothSectionsFull scheduleConfig sections) studentSubjects of
           Some subjId \<Rightarrow>
             \<lparr>d_type = CAPACITY,
              d_reason = CapacityReason (getSubjectNameById allSubjects subjId),
              d_subjects = allSubjectNames,
              d_conflictingSubjects = [getSubjectNameById allSubjects subjId]\<rparr>
         | None \<Rightarrow>
             let conflictingSubjectNames =
                   conflictingPairs scheduleConfig allSubjects studentSubjects []
             in \<lparr>d_type = SCHEDULE,
                 d_reason = ScheduleReason,
                 d_subjects = allSubjectNames,
                 d_conflictingSubjects =
                   (if conflictingSubjectNames \<noteq> [] then conflictingSubjectNames
                    else allSubjectNames)\<rparr>)
      else
        let studentConflicts = conflictsOf conflictMap studentCode;
            blockingStudentsBySchedule =
              filter (\<lambda>blocking. blocking \<noteq> [])
                (map (blockingStudentsFor sections studentConflicts) potentialSchedules);
            intersection =
              (case blockingStudentsBySchedule of
                 [] \<Rightarrow> []
               | first # others \<Rightarrow>
                   fold (\<lambda>blocking acc. filter (\<lambda>x. x \<in> set blocking) acc) others first)
        in
        if intersection \<noteq> [] then
          \<lparr>d_type = CONFLICT,
           d_reason = ConflictReason
             (map (\<lambda>code. (displayName studentCodeToName code, code)) intersection)
             (findSuggestion allSubjects studentCode studentSubjects conflictMap sections
                scheduleConfig),
           d_subjects = allSubjectNames,
           d_conflictingSubjects = []\<rparr>
        else
          \<lparr>d_type = UNKNOWN, d_reason = UnknownReason,
           d_subjects = allSubjectNames, d_conflictingSubjects = []\<rparr>)"

section \<open>The engine (scheduleStudents)\<close>

record StudentAssignment =
  sa_name :: string
  sa_code :: string
  sa_course :: string
  sa_sections :: "string list"

record Stats =
  totalStudents :: nat
  totalEnrollments :: nat
  assignedStudents :: nat
  unassignedStudentsCount :: nat
  combinationsChecked :: nat

record ScheduleResult =
  result_sections :: Sections
  result_unassignedStudents :: "UnassignedStudentInfo list"
  result_studentAssignments :: "(string \<times> StudentAssignment) list"
  result_stats :: Stats

text \<open>The conflict index: \<open>conflictPairs.forEach(([a, b]) => ...)\<close>.\<close>

definition addConflictPair :: "string \<times> string \<Rightarrow> ConflictMap \<Rightarrow> ConflictMap" where
  "addConflictPair pair conflictMap =
     (let a = fst pair; b = snd pair;
          m1 = (if map_of conflictMap a = None then AList.update a [] conflictMap else conflictMap);
          m2 = (if map_of m1 b = None then AList.update b [] m1 else m1);
          m3 = AList.map_entry a (setAdd b) m2
      in AList.map_entry b (setAdd a) m3)"

definition buildConflictMap :: "(string \<times> string) list \<Rightarrow> ConflictMap" where
  "buildConflictMap conflictPairs = fold addConflictPair conflictPairs []"

text \<open>The section universe: two sections for every subject that has a config entry.\<close>

definition newSection :: "Subject \<Rightarrow> string \<Rightarrow> int \<Rightarrow> int \<Rightarrow> Section" where
  "newSection subject sectionIdSuffix blk cap =
     \<lparr>sec_id = sectionIdOf (subj_id subject) sectionIdSuffix,
      subjectId = subj_id subject,
      subjectName = subj_name subject,
      block = blk,
      students = [],
      capacity = cap\<rparr>"

definition addSubjectSections :: "ScheduleConfig \<Rightarrow> Subject \<Rightarrow> Sections \<Rightarrow> Sections" where
  "addSubjectSections scheduleConfig subject sections =
     (case scheduleConfig (subj_id subject) of
        None \<Rightarrow> sections
      | Some config \<Rightarrow>
          AList.update (sectionIdOf (subj_id subject) ''2'')
            (newSection subject ''2'' (s2_block config) (cfg_capacity config))
            (AList.update (sectionIdOf (subj_id subject) ''1'')
               (newSection subject ''1'' (s1_block config) (cfg_capacity config))
               sections))"

definition buildSections :: "Subject list \<Rightarrow> ScheduleConfig \<Rightarrow> Sections" where
  "buildSections subjectsConfig scheduleConfig =
     fold (addSubjectSections scheduleConfig) subjectsConfig []"

definition pushStudent :: "string \<Rightarrow> string \<Rightarrow> Sections \<Rightarrow> Sections" where
  "pushStudent sectionId studentCode sections =
     AList.map_entry sectionId (\<lambda>sec. sec\<lparr>students := students sec @ [studentCode]\<rparr>) sections"

text \<open>Phase 1: place the preassigned students; a full or unknown section aborts the run.\<close>

fun placeStudent :: "string \<Rightarrow> string list \<Rightarrow> Sections \<Rightarrow> error + Sections" where
  "placeStudent studentCode [] sections = Inr sections"
| "placeStudent studentCode (sectionId # rest) sections =
     (case map_of sections sectionId of
        None \<Rightarrow> Inl (PreassignInvalidSection studentCode sectionId)
      | Some section \<Rightarrow>
          if isFull section then Inl (PreassignFull studentCode sectionId)
          else placeStudent studentCode rest (pushStudent sectionId studentCode sections))"

fun placePreassigned :: "(string \<times> string list) list \<Rightarrow> Sections \<Rightarrow> error + Sections" where
  "placePreassigned [] sections = Inr sections"
| "placePreassigned ((studentCode, sectionIds) # rest) sections =
     (case placeStudent studentCode sectionIds sections of
        Inl e \<Rightarrow> Inl e
      | Inr sections' \<Rightarrow> placePreassigned rest sections')"

text \<open>The conflict check of the preassigned students; \<open>Some\<close> is the error thrown.\<close>

fun validateStudent :: "Sections \<Rightarrow> string list \<Rightarrow> string \<Rightarrow> string list \<Rightarrow> error option" where
  "validateStudent sections studentConflicts studentCode [] = None"
| "validateStudent sections studentConflicts studentCode (sectionId # rest) =
     (case map_of sections sectionId of
        None \<Rightarrow> validateStudent sections studentConflicts studentCode rest
      | Some section \<Rightarrow>
          (case find (\<lambda>otherStudentCode. studentCode \<noteq> otherStudentCode \<and>
                         otherStudentCode \<in> set studentConflicts) (students section) of
             Some otherStudentCode \<Rightarrow>
               Some (PreassignConflict studentCode otherStudentCode sectionId)
           | None \<Rightarrow> validateStudent sections studentConflicts studentCode rest))"

fun validatePreassigned ::
  "ConflictMap \<Rightarrow> Sections \<Rightarrow> (string \<times> string list) list \<Rightarrow> error option" where
  "validatePreassigned conflictMap sections [] = None"
| "validatePreassigned conflictMap sections ((studentCode, sectionIds) # rest) =
     (let studentConflicts = conflictsOf conflictMap studentCode in
      if studentConflicts = [] then validatePreassigned conflictMap sections rest
      else
        (case validateStudent sections studentConflicts studentCode sectionIds of
           Some e \<Rightarrow> Some e
         | None \<Rightarrow> validatePreassigned conflictMap sections rest))"

text \<open>
  The per-student loop. \<open>resolveSubjects\<close> is the expression that maps the enrolled
  subject names to ids, drops the unknown ones and removes duplicates through a \<open>Set\<close>.
\<close>

definition resolveSubjects :: "Subject list \<Rightarrow> string list \<Rightarrow> int list" where
  "resolveSubjects subjectsConfig rawSubjects =
     fold setAdd
       (List.map_filter
          (\<lambda>n. map_option subj_id (find (\<lambda>s. subj_name s = n) subjectsConfig))
          rawSubjects)
       []"

definition snapshotSizes :: "Sections \<Rightarrow> CurrentSectionSizes" where
  "snapshotSizes sections =
     fold (\<lambda>(sectionId, section) sectionSizes.
             AList.update sectionId (int (length (students section))) sectionSizes)
       sections []"

fun selectLoop ::
  "(Assignment \<Rightarrow> error + int) \<Rightarrow> Assignment list \<Rightarrow> Assignment \<Rightarrow> int \<Rightarrow> error + Assignment" where
  "selectLoop costOf [] bestAssignment minCost = Inr bestAssignment"
| "selectLoop costOf (a # rest) bestAssignment minCost =
     (case costOf a of
        Inl e \<Rightarrow> Inl e
      | Inr cost \<Rightarrow>
          if cost < minCost then selectLoop costOf rest a cost
          else selectLoop costOf rest bestAssignment minCost)"

definition selectBest ::
  "(Assignment \<Rightarrow> error + int) \<Rightarrow> Assignment list \<Rightarrow> error + Assignment" where
  "selectBest costOf validAssignmentList =
     (case validAssignmentList of
        [] \<Rightarrow> Inl TypeError
      | first # rest \<Rightarrow>
          (case costOf first of
             Inl e \<Rightarrow> Inl e
           | Inr minCost \<Rightarrow> selectLoop costOf rest first minCost))"

definition commitAssignment :: "string \<Rightarrow> Assignment \<Rightarrow> Sections \<Rightarrow> Sections" where
  "commitAssignment studentCode bestAssignment sections =
     fold (\<lambda>sectionId secs. pushStudent sectionId studentCode secs)
       (map snd bestAssignment) sections"

record RunState =
  run_sections :: Sections
  run_unassignedStudents :: "UnassignedStudentInfo list"
  run_combinationsChecked :: nat

definition processStudent ::
  "(string \<times> string list) list \<Rightarrow> (string \<Rightarrow> string option) \<Rightarrow> (string \<Rightarrow> Preference option)
     \<Rightarrow> ConflictMap \<Rightarrow> Subject list \<Rightarrow> ScheduleConfig \<Rightarrow> BalancingStrategy
     \<Rightarrow> string \<Rightarrow> RunState \<Rightarrow> error + RunState" where
  "processStudent enrollments studentCodeToName studentPreferences conflictMap subjectsConfig
       scheduleConfig balancingStrategy studentCode st =
     (let rawSubjects = (case map_of enrollments studentCode of None \<Rightarrow> [] | Some s \<Rightarrow> s);
          studentSubjects = resolveSubjects subjectsConfig rawSubjects
      in
      if studentSubjects = [] then Inr st
      else
        let validAssignmentList =
              findValidAssignments studentSubjects studentCode conflictMap (run_sections st)
                scheduleConfig;
            st1 = st\<lparr>run_combinationsChecked :=
                        run_combinationsChecked st + length validAssignmentList\<rparr>
        in
        if validAssignmentList = [] then
          Inr (st1\<lparr>run_unassignedStudents := run_unassignedStudents st1 @
                 [Diagnosis.extend
                    (diagnoseFailure subjectsConfig studentCode studentSubjects conflictMap
                       (run_sections st1) studentCodeToName scheduleConfig)
                    (UnassignedStudentInfo.fields studentCode)]\<rparr>)
        else
          let sectionSizes = snapshotSizes (run_sections st1);
              studentPreference = studentPreferences studentCode
          in
          (case selectBest
                  (\<lambda>a. calculateAssignmentCost a sectionSizes studentPreference scheduleConfig
                         balancingStrategy)
                  validAssignmentList of
             Inl e \<Rightarrow> Inl e
           | Inr bestAssignment \<Rightarrow>
               Inr (st1\<lparr>run_sections :=
                           commitAssignment studentCode bestAssignment (run_sections st1)\<rparr>)))"

fun scheduleLoop :: "(string \<Rightarrow> RunState \<Rightarrow> error + RunState) \<Rightarrow> string list \<Rightarrow> RunState
     \<Rightarrow> error + RunState" where
  "scheduleLoop body [] st = Inr st"
| "scheduleLoop body (studentCode # rest) st =
     (case body studentCode st of
        Inl e \<Rightarrow> Inl e
      | Inr st' \<Rightarrow> scheduleLoop body rest st')"

text \<open>The result assembler.\<close>

definition assignedStudentsSet :: "Sections \<Rightarrow> string list" where
  "assignedStudentsSet sections =
     fold (\<lambda>(sectionId, sec) acc. fold setAdd (students sec) acc) sections []"

definition addStudentSection ::
  "string \<Rightarrow> string \<Rightarrow> (string \<times> string list) list \<Rightarrow> (string \<times> string list) list" where
  "addStudentSection sectionId studentCode m =
     (case map_of m studentCode of
        None \<Rightarrow> AList.update studentCode [sectionId] m
      | Some l \<Rightarrow> AList.update studentCode (l @ [sectionId]) m)"

definition studentToSectionsMap :: "Sections \<Rightarrow> (string \<times> string list) list" where
  "studentToSectionsMap sections =
     fold (\<lambda>(sectionId, section) m. fold (addStudentSection sectionId) (students section) m)
       sections []"

definition buildStudentAssignments ::
  "(string \<Rightarrow> string option) \<Rightarrow> (string \<Rightarrow> string option) \<Rightarrow> (string \<times> string list) list
     \<Rightarrow> (string \<times> StudentAssignment) list" where
  "buildStudentAssignments studentCourses studentCodeToName toSections =
     fold (\<lambda>(studentCode, assignedSections) studentAssignments.
             case studentCourses studentCode of
               None \<Rightarrow> studentAssignments
             | Some course \<Rightarrow>
                 if course = [] then studentAssignments
                 else AList.update studentCode
                        \<lparr>sa_name = displayName studentCodeToName studentCode,
                         sa_code = studentCode,
                         sa_course = course,
                         sa_sections = sort assignedSections\<rparr>
                        studentAssignments)
       toSections []"

definition assembleResult ::
  "(string \<times> string list) list \<Rightarrow> (string \<Rightarrow> string option) \<Rightarrow> (string \<Rightarrow> string option)
     \<Rightarrow> RunState \<Rightarrow> ScheduleResult" where
  "assembleResult enrollments studentCourses studentCodeToName st =
     \<lparr>result_sections = run_sections st,
      result_unassignedStudents = run_unassignedStudents st,
      result_studentAssignments =
        buildStudentAssignments studentCourses studentCodeToName
          (studentToSectionsMap (run_sections st)),
      result_stats =
        \<lparr>totalStudents = length (map fst enrollments),
         totalEnrollments = fold (\<lambda>current total. total + length current) (map snd enrollments) 0,
         assignedStudents = length (assignedStudentsSet (run_sections st)),
         unassignedStudentsCount = length (run_unassignedStudents st),
         combinationsChecked = run_combinationsChecked st\<rparr>\<rparr>"

text \<open>
  \<open>enrollments\<close> and \<open>preassignedSections\<close> are iterated, so they are association lists
  (a \<open>Map\<close> has each key once); \<open>studentCourses\<close>, \<open>studentCodeToName\<close> and
  \<open>studentPreferences\<close> are only looked up. Each conflict pair is a two-element array.
  The module variable \<open>allSubjects\<close>, which \<open>scheduleStudents\<close> sets to \<open>subjectsConfig\<close>
  before anything else and \<open>diagnoseFailure\<close> reads, is a parameter of \<open>diagnoseFailure\<close>.
  The local counter \<open>totalEnrollments\<close> of the loop is never read and is left out, and so
  is the field \<open>studentCodeToName\<close> of the result, which is the input handed through.
\<close>

definition scheduleStudents ::
  "(string \<times> string list) list \<Rightarrow> (string \<Rightarrow> string option) \<Rightarrow> (string \<Rightarrow> string option)
     \<Rightarrow> (string \<Rightarrow> Preference option) \<Rightarrow> (string \<times> string list) list
     \<Rightarrow> (string \<times> string) list \<Rightarrow> Subject list \<Rightarrow> ScheduleConfig \<Rightarrow> BalancingStrategy
     \<Rightarrow> error + ScheduleResult" where
  "scheduleStudents enrollments studentCourses studentCodeToName studentPreferences
       preassignedSections conflictPairs subjectsConfig scheduleConfig balancingStrategy =
     (let conflictMap = buildConflictMap conflictPairs;
          sections0 = buildSections subjectsConfig scheduleConfig
      in
      case placePreassigned preassignedSections sections0 of
        Inl e \<Rightarrow> Inl e
      | Inr sections1 \<Rightarrow>
          (case validatePreassigned conflictMap sections1 preassignedSections of
             Some e \<Rightarrow> Inl e
           | None \<Rightarrow>
               let studentList = map fst enrollments;
                   studentsToSchedule =
                     filter (\<lambda>code. code \<notin> fst ` set preassignedSections) studentList
               in
               (case scheduleLoop
                       (processStudent enrollments studentCodeToName studentPreferences
                          conflictMap subjectsConfig scheduleConfig balancingStrategy)
                       studentsToSchedule
                       \<lparr>run_sections = sections1, run_unassignedStudents = [],
                        run_combinationsChecked = 0\<rparr> of
                  Inl e \<Rightarrow> Inl e
                | Inr st \<Rightarrow>
                    Inr (assembleResult enrollments studentCourses studentCodeToName st))))"

section \<open>Manual override validation (ScheduleEditorModal)\<close>

text \<open>
  The effect \<open>validate\<close> of the editor. \<open>selectedSectionIds\<close> is
  \<open>Object.values(currentSections)\<close> and \<open>studentSubjects\<close> the memoised subject list of the
  student. The outcome replaces the component's \<open>validation\<close> state; the early return
  leaves it as it was. The message texts are the constructors of \<open>ValidationMessage\<close>
  (\<open>NoMessage\<close> is the empty text of the initial state). \<open>sections.get(sectionId)!\<close> on an
  unknown id is a \<open>TypeError\<close>.
\<close>

datatype ValidationMessage =
    NoMessage
  | ScheduleClash
  | SectionIsFull string int
  | CoexistenceConflict string
  | AssignmentIsValid

record Validation =
  isValid :: bool
  message :: ValidationMessage

fun blockClash :: "Sections \<Rightarrow> string list \<Rightarrow> int set \<Rightarrow> error + bool" where
  "blockClash sections [] used = Inr False"
| "blockClash sections (sectionId # rest) used =
     (case map_of sections sectionId of
        None \<Rightarrow> Inl TypeError
      | Some section \<Rightarrow>
          if block section \<in> used then Inr True
          else blockClash sections rest (insert (block section) used))"

fun checkSelected :: "Sections \<Rightarrow> string list \<Rightarrow> string \<Rightarrow> string list \<Rightarrow> error + Validation" where
  "checkSelected sections studentConflicts code [] =
     Inr \<lparr>isValid = True, message = AssignmentIsValid\<rparr>"
| "checkSelected sections studentConflicts code (sectionId # rest) =
     (case map_of sections sectionId of
        None \<Rightarrow> Inl TypeError
      | Some section \<Rightarrow>
          if int (length (filter (\<lambda>s. s \<noteq> code) (students section))) \<ge> capacity section
          then Inr \<lparr>isValid = False, message = SectionIsFull sectionId (capacity section)\<rparr>
          else if \<exists>otherStudent \<in> set (students section). otherStudent \<in> set studentConflicts
          then Inr \<lparr>isValid = False, message = CoexistenceConflict sectionId\<rparr>
          else checkSelected sections studentConflicts code rest)"

definition validate ::
  "Sections \<Rightarrow> (string \<times> string) list \<Rightarrow> string \<Rightarrow> Subject list \<Rightarrow> string list \<Rightarrow> Validation
     \<Rightarrow> error + Validation" where
  "validate sections conflictPairs code studentSubjects selectedSectionIds validation =
     (if length selectedSectionIds \<noteq> length studentSubjects then Inr validation
      else
        (case blockClash sections selectedSectionIds {} of
           Inl e \<Rightarrow> Inl e
         | Inr clash \<Rightarrow>
             if clash then Inr \<lparr>isValid = False, message = ScheduleClash\<rparr>
             else checkSelected sections (conflictsOf (buildConflictMap conflictPairs) code)
                    code selectedSectionIds))"

section \<open>Specification-level notions\<close>

text \<open>
  The sections of a run are built from the schedule config: every section belongs to a
  configured subject, is slot 1 or slot 2 of it, and has that slot's block and the
  subject's capacity.
\<close>

definition sectionsMatchConfig :: "ScheduleConfig \<Rightarrow> Sections \<Rightarrow> bool" where
  "sectionsMatchConfig scheduleConfig sections =
     (\<forall>(sectionId, sec) \<in> set sections.
        case scheduleConfig (subjectId sec) of
          None \<Rightarrow> False
        | Some config \<Rightarrow>
            capacity sec = cfg_capacity config \<and>
            ((sectionId = sectionIdOf (subjectId sec) ''1'' \<and> block sec = s1_block config) \<or>
             (sectionId = sectionIdOf (subjectId sec) ''2'' \<and> block sec = s2_block config)))"

definition chosenBlock :: "Sections \<Rightarrow> int \<times> string \<Rightarrow> int option" where
  "chosenBlock sections entry = map_option block (map_of sections (snd entry))"

text \<open>
  A feasible combination, in the words of the specification: one section of each enrolled
  subject, in the order of the subject list, such that (a) no two chosen sections share
  a block, (b) each chosen section has strictly fewer occupants than its capacity and
  (c) no occupant of a chosen section is in the student's conflict set. The conflict set
  is a parameter: a set of student codes.
\<close>

definition feasible :: "Sections \<Rightarrow> string set \<Rightarrow> int list \<Rightarrow> Assignment \<Rightarrow> bool" where
  "feasible sections studentConflicts studentSubjects a =
     (map fst a = studentSubjects \<and>
      (\<forall>(subjId, sectionId) \<in> set a.
         (sectionId = sectionIdOf subjId ''1'' \<or> sectionId = sectionIdOf subjId ''2'') \<and>
         (case map_of sections sectionId of
            None \<Rightarrow> False
          | Some sec \<Rightarrow>
              int (length (students sec)) < capacity sec \<and>
              (\<forall>occupant \<in> set (students sec). occupant \<notin> studentConflicts))) \<and>
      distinct (map (chosenBlock sections) a))"

text \<open>
  The conflict set of a student in a conflict index (the adjacency map of the
  specification): the members of the set stored under the student's code, and nobody when
  the index has no entry for the student.
\<close>

definition adjacentTo :: "ConflictMap \<Rightarrow> string \<Rightarrow> string set" where
  "adjacentTo conflictIndex studentCode =
     (case map_of conflictIndex studentCode of None \<Rightarrow> {} | Some others \<Rightarrow> set others)"

text \<open>
  The backtracking of \<open>findValidAssignments\<close> without its mutable state: the complete
  assignments below the current node, in the order in which they are found.
\<close>

definition slotOpen :: "Sections \<Rightarrow> string list \<Rightarrow> int set \<Rightarrow> int \<Rightarrow> string \<Rightarrow> bool" where
  "slotOpen sections studentConflicts used blk sectionId =
     (blk \<notin> used \<and>
      (case map_of sections sectionId of
         None \<Rightarrow> False
       | Some section \<Rightarrow> \<not> isFull section \<and> \<not> hasConflict studentConflicts (students section)))"

fun enumAssignments ::
  "ScheduleConfig \<Rightarrow> Sections \<Rightarrow> string list \<Rightarrow> int set \<Rightarrow> int list \<Rightarrow> Assignment list" where
  "enumAssignments scheduleConfig sections studentConflicts used [] = [[]]"
| "enumAssignments scheduleConfig sections studentConflicts used (subjId # rest) =
     (case scheduleConfig subjId of
        None \<Rightarrow> []
      | Some config \<Rightarrow>
          (if slotOpen sections studentConflicts used (s1_block config) (sectionIdOf subjId ''1'')
           then map ((#) (subjId, sectionIdOf subjId ''1''))
                  (enumAssignments scheduleConfig sections studentConflicts
                     (insert (s1_block config) used) rest)
           else []) @
          (if slotOpen sections studentConflicts used (s2_block config) (sectionIdOf subjId ''2'')
           then map ((#) (subjId, sectionIdOf subjId ''2''))
                  (enumAssignments scheduleConfig sections studentConflicts
                     (insert (s2_block config) used) rest)
           else []))"

definition feasibleFrom ::
  "Sections \<Rightarrow> string list \<Rightarrow> int set \<Rightarrow> int list \<Rightarrow> Assignment \<Rightarrow> bool" where
  "feasibleFrom sections confl used subs a =
     (feasible sections (set confl) subs a \<and>
      (\<forall>e \<in> set a. \<forall>b. chosenBlock sections e = Some b \<longrightarrow> b \<notin> used))"

text \<open>Every subject that an assignment maps has an entry in the schedule config.\<close>

definition configured :: "ScheduleConfig \<Rightarrow> Assignment \<Rightarrow> bool" where
  "configured scheduleConfig a = (\<forall>k \<in> fst ` set a. scheduleConfig k \<noteq> None)"

definition searchConfigured :: "ScheduleConfig \<Rightarrow> SearchState \<Rightarrow> bool" where
  "searchConfigured scheduleConfig st =
     (configured scheduleConfig (currentAssignment st) \<and>
      (\<forall>a \<in> set (validAssignments st). configured scheduleConfig a))"

section \<open>A small catalogue for concrete runs\<close>

text \<open>
  Three subjects: the first and the third offer blocks 1 and 2 with capacity 1, the
  second offers blocks 1 and 3 with capacity 2 (block 3 is the afternoon block).
\<close>

definition exampleConfig :: ScheduleConfig where
  "exampleConfig =
     [1 \<mapsto> \<lparr>s1_block = 1, s2_block = 2, cfg_capacity = 1\<rparr>,
      2 \<mapsto> \<lparr>s1_block = 1, s2_block = 3, cfg_capacity = 2\<rparr>,
      3 \<mapsto> \<lparr>s1_block = 1, s2_block = 2, cfg_capacity = 1\<rparr>]"

definition exampleSubjects :: "Subject list" where
  "exampleSubjects =
     [\<lparr>subj_id = 1, subj_name = ''ALGEBRA'', subj_capacity = 1,
       subj_s1_block = 1, subj_s2_block = 2\<rparr>,
      \<lparr>subj_id = 2, subj_name = ''BIOLOGIA'', subj_capacity = 2,
       subj_s1_block = 1, subj_s2_block = 3\<rparr>,
      \<lparr>subj_id = 3, subj_name = ''CIVICA'', subj_capacity = 1,
       subj_s1_block = 1, subj_s2_block = 2\<rparr>]"

definition exampleSection :: "string \<Rightarrow> int \<Rightarrow> string \<Rightarrow> int \<Rightarrow> string list \<Rightarrow> int \<Rightarrow> Section" where
  "exampleSection i s n b occupants c =
     \<lparr>sec_id = i, subjectId = s, subjectName = n, block = b, students = occupants, capacity = c\<rparr>"

definition exampleSections :: Sections where
  "exampleSections =
     [(''1.1'', exampleSection ''1.1'' 1 ''ALGEBRA'' 1 [] 1),
      (''1.2'', exampleSection ''1.2'' 1 ''ALGEBRA'' 2 [] 1),
      (''2.1'', exampleSection ''2.1'' 2 ''BIOLOGIA'' 1 [] 2),
      (''2.2'', exampleSection ''2.2'' 2 ''BIOLOGIA'' 3 [] 2),
      (''3.1'', exampleSection ''3.1'' 3 ''CIVICA'' 1 [] 1),
      (''3.2'', exampleSection ''3.2'' 3 ''CIVICA'' 2 [] 1)]"

text \<open>
  The cost of an assignment in the words of the specification: the sum over the chosen
  sections of the occupant count (speed) or of its square (equitable), plus 10 for each
  chosen section in the afternoon block when the preference is morning, plus 5 for
  each chosen section outside the afternoon block when the preference is afternoon.
\<close>

definition occupancy :: "Sections \<Rightarrow> string \<Rightarrow> int" where
  "occupancy sections sectionId =
     (case map_of sections sectionId of None \<Rightarrow> 0 | Some sec \<Rightarrow> int (length (students sec)))"

definition afternoonBlock :: int where
  "afternoonBlock = 3"

definition specCost :: "Sections \<Rightarrow> BalancingStrategy \<Rightarrow> Preference option \<Rightarrow> Assignment \<Rightarrow> int" where
  "specCost sections balancingStrategy preference a =
     (\<Sum>e\<leftarrow>a. case balancingStrategy of
                speed \<Rightarrow> occupancy sections (snd e)
              | equitable \<Rightarrow> (occupancy sections (snd e))\<^sup>2) +
     (case preference of
        None \<Rightarrow> 0
      | Some manana \<Rightarrow>
          10 * int (length (filter (\<lambda>e. chosenBlock sections e = Some afternoonBlock) a))
      | Some tarde \<Rightarrow>
          5 * int (length (filter (\<lambda>e. chosenBlock sections e \<noteq> Some afternoonBlock) a)))"

text \<open>
  Selection: \<open>firstMinimum val xs i\<close> says that position \<open>i\<close> holds the first element of
  \<open>xs\<close> whose value is minimal. \<open>costValue\<close> reads the cost out of a successful call.
\<close>

definition costValue :: "(Assignment \<Rightarrow> error + int) \<Rightarrow> Assignment \<Rightarrow> int" where
  "costValue costOf a = (case costOf a of Inr c \<Rightarrow> c | Inl e \<Rightarrow> 0)"

definition firstMinimum :: "(Assignment \<Rightarrow> int) \<Rightarrow> Assignment list \<Rightarrow> nat \<Rightarrow> bool" where
  "firstMinimum val xs i =
     (i < length xs \<and> (\<forall>j < length xs. val (xs ! i) \<le> val (xs ! j)) \<and>
      (\<forall>j < i. val (xs ! i) < val (xs ! j)))"

text \<open>
  The conflict set of a student: everyone paired with the student in the conflict-pair
  input, in either order.
\<close>

definition conflictSet :: "(string \<times> string) list \<Rightarrow> string \<Rightarrow> string set" where
  "conflictSet conflictPairs a = {b. (a, b) \<in> set conflictPairs \<or> (b, a) \<in> set conflictPairs}"

text \<open>
  A valid manual override, in the words of the specification: no two selected sections
  share a block, every selected section has room once the student's own occupancy is
  left out, and no selected section holds an occupant of the student's conflict set.
\<close>

definition overrideValid :: "Sections \<Rightarrow> string set \<Rightarrow> string \<Rightarrow> string list \<Rightarrow> bool" where
  "overrideValid sections studentConflicts code selected =
     (distinct (map (\<lambda>sectionId. map_option block (map_of sections sectionId)) selected) \<and>
      (\<forall>sectionId \<in> set selected.
         case map_of sections sectionId of
           None \<Rightarrow> False
         | Some sec \<Rightarrow>
             int (length (filter (\<lambda>s. s \<noteq> code) (students sec))) < capacity sec \<and>
             (\<forall>occupant \<in> set (students sec). occupant \<notin> studentConflicts)))"

text \<open>
  The combination search with the capacity and the conflict constraints disabled, as
  the specification describes the SCHEDULE diagnosis: only block uniqueness (and the
  existence of the section) is checked.
\<close>

fun blockOnlyAssignments ::
  "ScheduleConfig \<Rightarrow> Sections \<Rightarrow> int set \<Rightarrow> int list \<Rightarrow> Assignment list" where
  "blockOnlyAssignments scheduleConfig sections used [] = [[]]"
| "blockOnlyAssignments scheduleConfig sections used (subjId # rest) =
     (case scheduleConfig subjId of
        None \<Rightarrow> []
      | Some config \<Rightarrow>
          (if s1_block config \<notin> used \<and> map_of sections (sectionIdOf subjId ''1'') \<noteq> None
           then map ((#) (subjId, sectionIdOf subjId ''1''))
                  (blockOnlyAssignments scheduleConfig sections (insert (s1_block config) used) rest)
           else []) @
          (if s2_block config \<notin> used \<and> map_of sections (sectionIdOf subjId ''2'') \<noteq> None
           then map ((#) (subjId, sectionIdOf subjId ''2''))
                  (blockOnlyAssignments scheduleConfig sections (insert (s2_block config) used) rest)
           else []))"

text \<open>The example sections with student P in section 1.1 and student Q in section 3.1.\<close>

definition crowdedSections :: Sections where
  "crowdedSections = pushStudent ''3.1'' ''Q'' (pushStudent ''1.1'' ''P'' exampleSections)"

text \<open>The example sections with student P in section 1.1 and student Z in section 2.2.\<close>

definition busySections :: Sections where
  "busySections = pushStudent ''2.2'' ''Z'' (pushStudent ''1.1'' ''P'' exampleSections)"

text \<open>
  A run without preassignments: P takes ALGEBRA, Q takes CIVICA, and A takes both.
\<close>

definition blockedEnrollments :: "(string \<times> string list) list" where
  "blockedEnrollments =
     [(''P'', [''ALGEBRA'']), (''Q'', [''CIVICA'']), (''A'', [''ALGEBRA'', ''CIVICA''])]"

definition blockedRun :: "error + ScheduleResult" where
  "blockedRun =
     scheduleStudents blockedEnrollments Map.empty Map.empty Map.empty [] [] exampleSubjects
       exampleConfig speed"

section \<open>Run invariants\<close>

text \<open>The students that occupy at least one section.\<close>

definition occupants :: "Sections \<Rightarrow> string set" where
  "occupants sections = (\<Union>(sectionId, sec) \<in> set sections. set (students sec))"

text \<open>
  A sequence of pushes of one student: what the placement of a preassigned student and the
  commit of a chosen assignment do to the sections. \<open>addOccupants\<close> is the effect on one
  section.
\<close>

definition pushes :: "string list \<Rightarrow> string \<Rightarrow> Sections \<Rightarrow> Sections" where
  "pushes sectionIds studentCode sections =
     fold (\<lambda>sectionId secs. pushStudent sectionId studentCode secs) sectionIds sections"

definition addOccupants :: "nat \<Rightarrow> string \<Rightarrow> Section \<Rightarrow> Section" where
  "addOccupants n studentCode sec = sec\<lparr>students := students sec @ replicate n studentCode\<rparr>"

text \<open>
  Well-formed sections: a \<open>Map\<close> has each key once, and the sections match the config.
  A freshly built section is empty and matches the config.
\<close>

definition wfSections :: "ScheduleConfig \<Rightarrow> Sections \<Rightarrow> bool" where
  "wfSections scheduleConfig sections =
     (distinct (map fst sections) \<and> sectionsMatchConfig scheduleConfig sections)"

definition freshSection :: "ScheduleConfig \<Rightarrow> string \<times> Section \<Rightarrow> bool" where
  "freshSection cfg entry =
     (students (snd entry) = [] \<and>
      (case cfg (subjectId (snd entry)) of
         None \<Rightarrow> False
       | Some config \<Rightarrow>
           capacity (snd entry) = cfg_capacity config \<and>
           ((fst entry = sectionIdOf (subjectId (snd entry)) ''1'' \<and> block (snd entry) = s1_block config) \<or>
            (fst entry = sectionIdOf (subjectId (snd entry)) ''2'' \<and> block (snd entry) = s2_block config))))"

text \<open>
  The capacity invariant. \<open>capacityNonNegative\<close> is the condition on the input under
  which it can hold at all: no section of the universe has a negative capacity (the
  configuration form only accepts capacities from 1 on).
\<close>

definition capacityRespected :: "Sections \<Rightarrow> bool" where
  "capacityRespected sections =
     (\<forall>(sectionId, sec) \<in> set sections. int (length (students sec)) \<le> capacity sec)"

definition capacityNonNegative :: "Subject list \<Rightarrow> ScheduleConfig \<Rightarrow> bool" where
  "capacityNonNegative subjectsConfig scheduleConfig =
     (\<forall>(sectionId, sec) \<in> set (buildSections subjectsConfig scheduleConfig). 0 \<le> capacity sec)"

definition sound :: "ScheduleConfig \<Rightarrow> Sections \<Rightarrow> bool" where
  "sound cfg secs = (wfSections cfg secs \<and> capacityRespected secs)"

text \<open>No section holds two different students one of whom is in the other's conflict set.\<close>

definition conflictFree :: "(string \<times> string) list \<Rightarrow> Sections \<Rightarrow> bool" where
  "conflictFree conflictPairs sections =
     (\<forall>(sectionId, sec) \<in> set sections.
        \<forall>x \<in> set (students sec). \<forall>y \<in> set (students sec).
          x \<noteq> y \<longrightarrow> y \<notin> conflictSet conflictPairs x)"

definition coexist :: "ScheduleConfig \<Rightarrow> (string \<times> string) list \<Rightarrow> Sections \<Rightarrow> bool" where
  "coexist cfg pairs secs = (wfSections cfg secs \<and> conflictFree pairs secs)"

text \<open>
  The blocks of the sections that hold a student, in section order, and the block of a
  section id.
\<close>

definition committedBlocks :: "Sections \<Rightarrow> string \<Rightarrow> int list" where
  "committedBlocks sections studentCode =
     map (\<lambda>(sectionId, sec). block sec)
       (filter (\<lambda>(sectionId, sec). studentCode \<in> set (students sec)) sections)"

definition blockOf :: "Sections \<Rightarrow> string \<Rightarrow> int option" where
  "blockOf sections sectionId = map_option block (map_of sections sectionId)"

section \<open>A complete run on the small catalogue\<close>

text \<open>
  P is preassigned to sections 1.1 and 2.2; A and B are scheduled by the search; A and B
  are a conflict pair; B has no course label.
\<close>

definition exampleEnrollments :: "(string \<times> string list) list" where
  "exampleEnrollments =
     [(''P'', [''ALGEBRA'', ''BIOLOGIA'']), (''A'', [''ALGEBRA'', ''BIOLOGIA'']),
      (''B'', [''BIOLOGIA''])]"

definition exampleCourses :: "string \<Rightarrow> string option" where
  "exampleCourses = map_of [(''P'', ''3A''), (''A'', ''3B'')]"

definition exampleRun :: "error + ScheduleResult" where
  "exampleRun =
     scheduleStudents exampleEnrollments exampleCourses Map.empty Map.empty
       [(''P'', [''1.1'', ''2.2''])] [(''A'', ''B'')] exampleSubjects exampleConfig speed"

definition examplePlaced :: Sections where
  "examplePlaced =
     [(''1.1'', exampleSection ''1.1'' 1 ''ALGEBRA'' 1 [''P''] 1),
      (''1.2'', exampleSection ''1.2'' 1 ''ALGEBRA'' 2 [] 1),
      (''2.1'', exampleSection ''2.1'' 2 ''BIOLOGIA'' 1 [] 2),
      (''2.2'', exampleSection ''2.2'' 2 ''BIOLOGIA'' 3 [''P''] 2),
      (''3.1'', exampleSection ''3.1'' 3 ''CIVICA'' 1 [] 1),
      (''3.2'', exampleSection ''3.2'' 3 ''CIVICA'' 2 [] 1)]"

definition exampleFinalSections :: Sections where
  "exampleFinalSections =
     [(''1.1'', exampleSection ''1.1'' 1 ''ALGEBRA'' 1 [''P''] 1),
      (''1.2'', exampleSection ''1.2'' 1 ''ALGEBRA'' 2 [''A''] 1),
      (''2.1'', exampleSection ''2.1'' 2 ''BIOLOGIA'' 1 [''A''] 2),
      (''2.2'', exampleSection ''2.2'' 2 ''BIOLOGIA'' 3 [''P'', ''B''] 2),
      (''3.1'', exampleSection ''3.1'' 3 ''CIVICA'' 1 [] 1),
      (''3.2'', exampleSection ''3.2'' 3 ''CIVICA'' 2 [] 1)]"

definition exampleResult :: ScheduleResult where
  "exampleResult =
     \<lparr>result_sections = exampleFinalSections,
      result_unassignedStudents = [],
      result_studentAssignments =
        [(''P'', \<lparr>sa_name = ''Desconocido'', sa_code = ''P'', sa_course = ''3A'',
                  sa_sections = [''1.1'', ''2.2'']\<rparr>),
         (''A'', \<lparr>sa_name = ''Desconocido'', sa_code = ''A'', sa_course = ''3B'',
                  sa_sections = [''1.2'', ''2.1'']\<rparr>)],
      result_stats =
        \<lparr>totalStudents = 3, totalEnrollments = 5, assignedStudents = 3,
         unassignedStudentsCount = 0, combinationsChecked = 3\<rparr>\<rparr>"

section \<open>Section identifiers are injective\<close>

lemma below_ten: "(d::nat) < 10 \<Longrightarrow> d \<in> {0, 1, 2, 3, 4, 5, 6, 7, 8, 9}"
  by auto

lemma digitChar_inj: "a < 10 \<Longrightarrow> b < 10 \<Longrightarrow> digitChar a = digitChar b \<Longrightarrow> a = b"
  by (drule below_ten, drule below_ten) (auto simp: digitChar_def)

lemma digitsOf_nonempty: "digitsOf n \<noteq> []"
  by (subst digitsOf.simps) simp

lemma digitsOf_inj: "digitsOf a = digitsOf b \<Longrightarrow> a = b"
proof (induction a arbitrary: b rule: digitsOf.induct)
  case (1 n)
  show ?case
  proof (cases "n < 10")
    case True
    then have l: "length (digitsOf n) = 1" by (subst digitsOf.simps) simp
    have "b < 10"
    proof (rule ccontr)
      assume "\<not> b < 10"
      then have "digitsOf b = digitsOf (b div 10) @ [digitChar (b mod 10)]"
        by (subst digitsOf.simps) simp
      then have "length (digitsOf b) \<ge> 2" using digitsOf_nonempty[of "b div 10"]
        by (cases "digitsOf (b div 10)") auto
      with l "1.prems" show False by simp
    qed
    with True "1.prems" show ?thesis
      by (subst (asm) digitsOf.simps, subst (asm) (2) digitsOf.simps) (simp add: digitChar_inj)
  next
    case False
    then have e: "digitsOf n = digitsOf (n div 10) @ [digitChar (n mod 10)]"
      by (subst digitsOf.simps) simp
    then have l: "length (digitsOf n) \<ge> 2" using digitsOf_nonempty[of "n div 10"]
      by (cases "digitsOf (n div 10)") auto
    have nb: "\<not> b < 10"
    proof
      assume "b < 10"
      then have "length (digitsOf b) = 1" by (subst digitsOf.simps) simp
      with l "1.prems" show False by simp
    qed
    then have eb: "digitsOf b = digitsOf (b div 10) @ [digitChar (b mod 10)]"
      by (subst digitsOf.simps) simp
    from e eb "1.prems" have "digitsOf (n div 10) = digitsOf (b div 10)"
      and "digitChar (n mod 10) = digitChar (b mod 10)" by auto
    then have "n div 10 = b div 10" and "n mod 10 = b mod 10"
      using "1.IH"[OF False] digitChar_inj[of "n mod 10" "b mod 10"] by auto
    then show ?thesis by (metis div_mult_mod_eq)
  qed
qed

lemma digitChar_not_minus: "d < 10 \<Longrightarrow> digitChar d \<noteq> CHR ''-''"
  by (drule below_ten) (auto simp: digitChar_def)

lemma hd_digitsOf_not_minus: "hd (digitsOf n) \<noteq> CHR ''-''"
proof (induction n rule: digitsOf.induct)
  case (1 n)
  show ?case
  proof (cases "n < 10")
    case True
    then show ?thesis by (subst digitsOf.simps) (simp add: digitChar_not_minus)
  next
    case False
    then show ?thesis using "1.IH" digitsOf_nonempty[of "n div 10"]
      by (subst digitsOf.simps) simp
  qed
qed

lemma numberToString_inj: "numberToString a = numberToString b \<Longrightarrow> a = b"
proof -
  assume e: "numberToString a = numberToString b"
  have m: "\<And>n m. CHR ''-'' # digitsOf n \<noteq> digitsOf m"
    using hd_digitsOf_not_minus by (metis list.sel(1))
  have m': "\<And>n m. digitsOf m \<noteq> CHR ''-'' # digitsOf n"
    using hd_digitsOf_not_minus by (metis list.sel(1))
  show ?thesis
  proof (cases "a < 0")
    case True
    with e m have b: "b < 0" by (auto simp: numberToString_def split: if_splits) 
    with True e have "nat (- a) = nat (- b)"
      by (auto simp: numberToString_def dest: digitsOf_inj)
    with True b show ?thesis by simp
  next
    case False
    with e m' have b: "\<not> b < 0" by (auto simp: numberToString_def split: if_splits) 
    with False e have "nat a = nat b"
      by (auto simp: numberToString_def dest: digitsOf_inj)
    with False b show ?thesis by simp
  qed
qed

lemma sectionIdOf_inj:
  "sectionIdOf a s = sectionIdOf b t \<Longrightarrow> length s = length t \<Longrightarrow> a = b \<and> s = t"
  by (auto simp: sectionIdOf_def dest: numberToString_inj)

lemma sectionIdOf_slots_neq: "sectionIdOf a ''1'' \<noteq> sectionIdOf b ''2''"
  by (simp add: sectionIdOf_def)

lemma endsWith_append: "endsWith (xs @ t) t"
  by (simp add: endsWith_def)

lemma endsWith_slot1: "endsWith (sectionIdOf a ''1'') ''.1''"
  using endsWith_append[of "numberToString a" "''.1''"] by (simp add: sectionIdOf_def)

lemma endsWith_slot2: "\<not> endsWith (sectionIdOf a ''2'') ''.1''"
  by (auto simp: sectionIdOf_def endsWith_def)

section \<open>The example catalogue\<close>

lemma example_sectionIds:
  "sectionIdOf 1 ''1'' = ''1.1''" "sectionIdOf 1 ''2'' = ''1.2''"
  "sectionIdOf 2 ''1'' = ''2.1''" "sectionIdOf 2 ''2'' = ''2.2''"
  "sectionIdOf 3 ''1'' = ''3.1''" "sectionIdOf 3 ''2'' = ''3.2''"
  by (simp_all add: sectionIdOf_def numberToString_def digitsOf.simps digitChar_def)

lemma example_buildSections: "buildSections exampleSubjects exampleConfig = exampleSections"
  by (simp add: buildSections_def exampleSubjects_def exampleConfig_def exampleSections_def
      exampleSection_def addSubjectSections_def newSection_def example_sectionIds)

lemma example_match: "sectionsMatchConfig exampleConfig exampleSections"
  by (simp add: exampleSections_def exampleSection_def sectionsMatchConfig_def exampleConfig_def
      example_sectionIds)

lemma example_match_push:
  "sectionsMatchConfig exampleConfig (pushStudent sid code exampleSections)"
  by (simp add: exampleSections_def exampleSection_def sectionsMatchConfig_def exampleConfig_def
      example_sectionIds pushStudent_def)

lemma example_search:
  "findValidAssignments [1, 2] ''A'' [] exampleSections exampleConfig =
     [[(1, ''1.1''), (2, ''2.2'')], [(1, ''1.2''), (2, ''2.1'')], [(1, ''1.2''), (2, ''2.2'')]]"
  by (simp add: exampleSections_def exampleSection_def findValidAssignments_def
      processSection_def exampleConfig_def example_sectionIds conflictsOf_def isFull_def
      hasConflict_def Let_def)

section \<open>The conflict index\<close>

lemma set_setAdd: "set (setAdd x s) = insert x (set s)"
  by (auto simp: setAdd_def)

lemma conflictsOf_update_fresh:
  "map_of m k = None \<Longrightarrow> conflictsOf (AList.update k [] m) x = conflictsOf m x"
  by (simp add: conflictsOf_def update_conv')

lemma conflictsOf_ensure:
  "conflictsOf (if map_of m k = None then AList.update k [] m else m) x = conflictsOf m x"
  by (cases "map_of m k = None") (simp_all add: conflictsOf_update_fresh)

lemma ensure_present: "map_of (if map_of m k = None then AList.update k [] m else m) k \<noteq> None"
  by (cases "map_of m k = None") (simp_all add: update_conv')

lemma ensure_keeps: "map_of m j \<noteq> None \<Longrightarrow>
    map_of (if map_of m k = None then AList.update k [] m else m) j \<noteq> None"
  by (cases "map_of m k = None") (simp_all add: update_conv')

lemma conflictsOf_map_entry:
  "map_of m k \<noteq> None \<Longrightarrow>
   conflictsOf (AList.map_entry k (setAdd v) m) x =
     (if x = k then setAdd v (conflictsOf m x) else conflictsOf m x)"
  by (auto simp: conflictsOf_def map_of_map_entry)

lemma map_entry_keeps: "map_of m j \<noteq> None \<Longrightarrow> map_of (AList.map_entry k f m) j \<noteq> None"
  by (auto simp: map_of_map_entry)

lemma conflictsOf_addConflictPair:
  "y \<in> set (conflictsOf (addConflictPair (a, b) m) x) \<longleftrightarrow>
     y \<in> set (conflictsOf m x) \<or> (x = a \<and> y = b) \<or> (x = b \<and> y = a)"
proof -
  let ?m1 = "if map_of m a = None then AList.update a [] m else m"
  let ?m2 = "if map_of ?m1 b = None then AList.update b [] ?m1 else ?m1"
  let ?m3 = "AList.map_entry a (setAdd b) ?m2"
  have a2: "map_of ?m2 a \<noteq> None" by (rule ensure_keeps) (rule ensure_present)
  have b2: "map_of ?m2 b \<noteq> None" by (rule ensure_present)
  have b3: "map_of ?m3 b \<noteq> None" using b2 by (rule map_entry_keeps)
  have "addConflictPair (a, b) m = AList.map_entry b (setAdd a) ?m3"
    by (simp add: addConflictPair_def Let_def)
  then have "y \<in> set (conflictsOf (addConflictPair (a, b) m) x) \<longleftrightarrow>
      y \<in> set (conflictsOf ?m3 x) \<or> (x = b \<and> y = a)"
    using conflictsOf_map_entry[OF b3, of a x] by (auto simp: set_setAdd)
  also have "y \<in> set (conflictsOf ?m3 x) \<longleftrightarrow>
      y \<in> set (conflictsOf ?m2 x) \<or> (x = a \<and> y = b)"
    using conflictsOf_map_entry[OF a2, of b x] by (auto simp: set_setAdd)
  also have "conflictsOf ?m2 x = conflictsOf ?m1 x" by (rule conflictsOf_ensure)
  also have "conflictsOf ?m1 x = conflictsOf m x" by (rule conflictsOf_ensure)
  finally show ?thesis by blast
qed

lemma conflictsOf_fold:
  "y \<in> set (conflictsOf (fold addConflictPair pairs m) x) \<longleftrightarrow>
     y \<in> set (conflictsOf m x) \<or> y \<in> conflictSet pairs x"
proof (induction pairs arbitrary: m)
  case Nil
  then show ?case by (simp add: conflictSet_def)
next
  case (Cons p pairs)
  obtain a b where p: "p = (a, b)" by (cases p)
  have "y \<in> conflictSet (p # pairs) x \<longleftrightarrow>
      (x = a \<and> y = b) \<or> (x = b \<and> y = a) \<or> y \<in> conflictSet pairs x"
    using p by (auto simp: conflictSet_def)
  with Cons.IH[of "addConflictPair (a, b) m"] p show ?case
    by (simp add: conflictsOf_addConflictPair)
qed

lemma conflictsOf_build: "set (conflictsOf (buildConflictMap pairs) x) = conflictSet pairs x"
proof -
  have "conflictsOf [] x = []" by (simp add: conflictsOf_def)
  then have "\<And>y. y \<in> set (conflictsOf (buildConflictMap pairs) x) \<longleftrightarrow> y \<in> conflictSet pairs x"
    by (simp add: buildConflictMap_def conflictsOf_fold)
  then show ?thesis by blast
qed

lemma conflictSet_sym: "b \<in> conflictSet pairs a \<longleftrightarrow> a \<in> conflictSet pairs b"
  by (auto simp: conflictSet_def)

section \<open>The search returns exactly the feasible combinations\<close>

lemma update_fresh: "k \<notin> fst ` set al \<Longrightarrow> AList.update k v al = al @ [(k, v)]"
  by (induction al) auto

lemma delete_fresh_snoc: "k \<notin> fst ` set al \<Longrightarrow> AList.delete k (al @ [(k, v)]) = al"
  by (induction al) (auto simp: AList.delete_eq)

lemma processSection_frame:
  assumes rec: "\<And>st'. currentAssignment st' = currentAssignment st @ [(subjId, sectionIdOf subjId suf)]
            \<Longrightarrow> usedBlocks st' = insert blk (usedBlocks st)
            \<Longrightarrow> recurse st' = st'\<lparr>validAssignments := validAssignments st' @
                 map ((@) (currentAssignment st')) (E (usedBlocks st'))\<rparr>"
    and fresh: "subjId \<notin> fst ` set (currentAssignment st)"
  shows "processSection sections confl subjId recurse blk suf st =
     st\<lparr>validAssignments := validAssignments st @
        map ((@) (currentAssignment st))
          (if slotOpen sections confl (usedBlocks st) blk (sectionIdOf subjId suf)
           then map ((#) (subjId, sectionIdOf subjId suf)) (E (insert blk (usedBlocks st)))
           else [])\<rparr>"
proof (cases "slotOpen sections confl (usedBlocks st) blk (sectionIdOf subjId suf)")
  case False
  then show ?thesis
    by (auto simp: processSection_def slotOpen_def Let_def split: option.splits)
next
  case True
  then obtain sec where s: "map_of sections (sectionIdOf subjId suf) = Some sec"
    and nf: "\<not> isFull sec" and nc: "\<not> hasConflict confl (students sec)"
    and nu: "blk \<notin> usedBlocks st"
    by (auto simp: slotOpen_def split: option.splits)
  let ?st1 = "st\<lparr>currentAssignment := currentAssignment st @ [(subjId, sectionIdOf subjId suf)],
                           usedBlocks := insert blk (usedBlocks st)\<rparr>"
  have c1: "currentAssignment ?st1 = currentAssignment st @ [(subjId, sectionIdOf subjId suf)]"
    by simp
  have r: "recurse ?st1 = ?st1\<lparr>validAssignments := validAssignments ?st1 @
                 map ((@) (currentAssignment ?st1)) (E (usedBlocks ?st1))\<rparr>"
    by (rule rec[OF c1]) simp
  show ?thesis using True s nf nc nu fresh
    by (simp add: processSection_def Let_def r update_fresh delete_fresh_snoc)
qed

lemma backtrack_enum:
  "distinct subs \<Longrightarrow> set subs \<inter> fst ` set (currentAssignment st) = {} \<Longrightarrow>
   backtrack cfg sections confl subs st =
     st\<lparr>validAssignments := validAssignments st @
        map ((@) (currentAssignment st)) (enumAssignments cfg sections confl (usedBlocks st) subs)\<rparr>"
proof (induction subs arbitrary: st)
  case Nil
  then show ?case by simp
next
  case (Cons s rest)
  show ?case
  proof (cases "cfg s")
    case None
    then show ?thesis by simp
  next
    case (Some config)
    have fresh: "s \<notin> fst ` set (currentAssignment st)" using Cons.prems by auto
    have rec: "\<And>suf blk st0 st'. currentAssignment st0 = currentAssignment st \<Longrightarrow>
            currentAssignment st' = currentAssignment st0 @ [(s, sectionIdOf s suf)]
            \<Longrightarrow> usedBlocks st' = insert blk (usedBlocks st0)
            \<Longrightarrow> backtrack cfg sections confl rest st' = st'\<lparr>validAssignments := validAssignments st' @
                 map ((@) (currentAssignment st')) (enumAssignments cfg sections confl (usedBlocks st') rest)\<rparr>"
      using Cons.prems by (intro Cons.IH) auto
    let ?st1 = "processSection sections confl s (backtrack cfg sections confl rest) (s1_block config) ''1'' st"
    have p1: "?st1 = st\<lparr>validAssignments := validAssignments st @
        map ((@) (currentAssignment st))
          (if slotOpen sections confl (usedBlocks st) (s1_block config) (sectionIdOf s ''1'')
           then map ((#) (s, sectionIdOf s ''1'')) (enumAssignments cfg sections confl (insert (s1_block config) (usedBlocks st)) rest)
           else [])\<rparr>"
      by (rule processSection_frame[where E="\<lambda>u. enumAssignments cfg sections confl u rest"])
         (use rec[of st] fresh in auto)
    have c1: "currentAssignment ?st1 = currentAssignment st" and u1: "usedBlocks ?st1 = usedBlocks st"
      by (simp_all add: p1)
    have p2: "processSection sections confl s (backtrack cfg sections confl rest) (s2_block config) ''2'' ?st1
       = ?st1\<lparr>validAssignments := validAssignments ?st1 @
        map ((@) (currentAssignment ?st1))
          (if slotOpen sections confl (usedBlocks ?st1) (s2_block config) (sectionIdOf s ''2'')
           then map ((#) (s, sectionIdOf s ''2'')) (enumAssignments cfg sections confl (insert (s2_block config) (usedBlocks ?st1)) rest)
           else [])\<rparr>"
      by (rule processSection_frame[where E="\<lambda>u. enumAssignments cfg sections confl u rest"])
         (use rec[of ?st1] fresh c1 in auto)
    have "backtrack cfg sections confl (s # rest) st =
        processSection sections confl s (backtrack cfg sections confl rest) (s2_block config) ''2'' ?st1"
      using Some by simp
    also note p2
    finally show ?thesis
      unfolding c1 u1 by (simp add: p1 Some)
  qed
qed

lemma map_append_Nil: "map ((@) []) xs = xs"
  by (induction xs) auto

lemma findValidAssignments_enum:
  "distinct studentSubjects \<Longrightarrow>
   findValidAssignments studentSubjects studentCode conflictMap sections scheduleConfig =
     enumAssignments scheduleConfig sections (conflictsOf conflictMap studentCode) {} studentSubjects"
  by (simp add: findValidAssignments_def backtrack_enum map_append_Nil)

lemma match_slot:
  assumes wf: "sectionsMatchConfig cfg sections"
    and s: "map_of sections (sectionIdOf subjId suf) = Some sec"
    and suf: "suf = ''1'' \<or> suf = ''2''"
  shows "\<exists>config. cfg subjId = Some config \<and>
           block sec = (if suf = ''1'' then s1_block config else s2_block config)"
proof -
  from s have "(sectionIdOf subjId suf, sec) \<in> set sections" by (rule map_of_SomeD)
  with wf obtain config where c: "cfg (subjectId sec) = Some config"
    and d: "(sectionIdOf subjId suf = sectionIdOf (subjectId sec) ''1'' \<and> block sec = s1_block config) \<or>
             (sectionIdOf subjId suf = sectionIdOf (subjectId sec) ''2'' \<and> block sec = s2_block config)"
    by (fastforce simp: sectionsMatchConfig_def split: option.splits)
  from d suf show ?thesis
    using c sectionIdOf_inj[of subjId suf "subjectId sec" "''1''"]
      sectionIdOf_inj[of subjId suf "subjectId sec" "''2''"]
    by auto
qed

lemma slotOpen_iff:
  "slotOpen sections confl used blk sid \<longleftrightarrow>
     blk \<notin> used \<and> (\<exists>sec. map_of sections sid = Some sec \<and>
        int (length (students sec)) < capacity sec \<and>
        (\<forall>occupant \<in> set (students sec). occupant \<notin> set confl))"
  by (auto simp: slotOpen_def isFull_def hasConflict_def split: option.splits)

lemma enum_sound:
  "sectionsMatchConfig cfg sections \<Longrightarrow> a \<in> set (enumAssignments cfg sections confl used subs) \<Longrightarrow>
   feasibleFrom sections confl used subs a"
proof (induction subs arbitrary: used a)
  case Nil
  then show ?case by (simp add: feasibleFrom_def feasible_def)
next
  case (Cons s rest)
  from Cons.prems(2) obtain config where c: "cfg s = Some config"
    by (cases "cfg s") auto
  have "\<exists>suf a'. (suf = ''1'' \<or> suf = ''2'') \<and> a = (s, sectionIdOf s suf) # a' \<and>
     slotOpen sections confl used (if suf = ''1'' then s1_block config else s2_block config) (sectionIdOf s suf) \<and>
     a' \<in> set (enumAssignments cfg sections confl
                 (insert (if suf = ''1'' then s1_block config else s2_block config) used) rest)"
  proof -
    from Cons.prems(2) c consider
      (one) a' where "a = (s, sectionIdOf s ''1'') # a'"
        "slotOpen sections confl used (s1_block config) (sectionIdOf s ''1'')"
        "a' \<in> set (enumAssignments cfg sections confl (insert (s1_block config) used) rest)"
    | (two) a' where "a = (s, sectionIdOf s ''2'') # a'"
        "slotOpen sections confl used (s2_block config) (sectionIdOf s ''2'')"
        "a' \<in> set (enumAssignments cfg sections confl (insert (s2_block config) used) rest)"
      by (auto split: if_splits)
    then show ?thesis
    proof cases
      case one
      then show ?thesis by (intro exI[of _ "''1''"] exI[of _ a']) simp
    next
      case two
      then show ?thesis by (intro exI[of _ "''2''"] exI[of _ a']) simp
    qed
  qed
  then obtain suf a' where suf: "suf = ''1'' \<or> suf = ''2''"
    and a: "a = (s, sectionIdOf s suf) # a'"
    and so: "slotOpen sections confl used (if suf = ''1'' then s1_block config else s2_block config) (sectionIdOf s suf)"
    and a': "a' \<in> set (enumAssignments cfg sections confl
                 (insert (if suf = ''1'' then s1_block config else s2_block config) used) rest)"
    by blast
  let ?b = "if suf = ''1'' then s1_block config else s2_block config"
  from Cons.IH[OF Cons.prems(1) a'] have ih: "feasibleFrom sections confl (insert ?b used) rest a'" .
  from so obtain sec where sec: "map_of sections (sectionIdOf s suf) = Some sec"
    and ok: "int (length (students sec)) < capacity sec"
       "\<forall>occupant \<in> set (students sec). occupant \<notin> set confl"
    and nu: "?b \<notin> used"
    by (auto simp: slotOpen_iff)
  from match_slot[OF Cons.prems(1) sec suf] c have blk: "block sec = ?b" by auto
  have cb: "chosenBlock sections (s, sectionIdOf s suf) = Some ?b"
    using sec blk by (simp add: chosenBlock_def)
  have "chosenBlock sections (s, sectionIdOf s suf) \<notin> chosenBlock sections ` set a'"
  proof
    assume "chosenBlock sections (s, sectionIdOf s suf) \<in> chosenBlock sections ` set a'"
    then obtain e where e: "e \<in> set a'"
      and "chosenBlock sections (s, sectionIdOf s suf) = chosenBlock sections e"
      by (rule imageE)
    with cb have "chosenBlock sections e = Some ?b" by simp
    moreover from ih have "\<forall>e \<in> set a'. \<forall>b. chosenBlock sections e = Some b \<longrightarrow> b \<notin> insert ?b used"
      by (simp add: feasibleFrom_def)
    ultimately show False using e by blast
  qed
  then show ?case using ih a suf sec ok nu cb
    by (auto simp: feasibleFrom_def feasible_def)
qed

lemma enum_complete:
  "sectionsMatchConfig cfg sections \<Longrightarrow> feasibleFrom sections confl used subs a \<Longrightarrow>
   a \<in> set (enumAssignments cfg sections confl used subs)"
proof (induction subs arbitrary: used a)
  case Nil
  then show ?case by (simp add: feasibleFrom_def feasible_def)
next
  case (Cons s rest)
  from Cons.prems(2) obtain sid a' where a: "a = (s, sid) # a'" and r: "map fst a' = rest"
    by (cases a) (auto simp: feasibleFrom_def feasible_def)
  from Cons.prems(2) a obtain suf sec where suf: "suf = ''1'' \<or> suf = ''2''"
    and sid: "sid = sectionIdOf s suf"
    and sec: "map_of sections sid = Some sec"
    and ok: "int (length (students sec)) < capacity sec"
       "\<forall>occupant \<in> set (students sec). occupant \<notin> set confl"
    by (auto simp: feasibleFrom_def feasible_def split: option.splits)
  from match_slot[OF Cons.prems(1) sec[unfolded sid] suf] obtain config where c: "cfg s = Some config"
    and blk: "block sec = (if suf = ''1'' then s1_block config else s2_block config)" by auto
  let ?b = "if suf = ''1'' then s1_block config else s2_block config"
  have cb: "chosenBlock sections (s, sid) = Some ?b"
    using sec blk by (simp add: chosenBlock_def)
  have nu: "?b \<notin> used" using Cons.prems(2) a cb by (auto simp: feasibleFrom_def)
  have ni: "Some ?b \<notin> chosenBlock sections ` set a'"
    using Cons.prems(2) a cb by (simp add: feasibleFrom_def feasible_def)
  have fr: "\<forall>e \<in> set a'. \<forall>b. chosenBlock sections e = Some b \<longrightarrow> b \<notin> insert ?b used"
  proof (intro ballI allI impI)
    fix e b assume e: "e \<in> set a'" and b: "chosenBlock sections e = Some b"
    from e have "chosenBlock sections e \<in> chosenBlock sections ` set a'" by (rule imageI)
    with b ni have "b \<noteq> ?b" by auto
    moreover from Cons.prems(2) a e b have "b \<notin> used" by (simp add: feasibleFrom_def)
    ultimately show "b \<notin> insert ?b used" by simp
  qed
  have "feasible sections (set confl) rest a'"
    using Cons.prems(2) a r by (simp add: feasibleFrom_def feasible_def)
  with fr have "feasibleFrom sections confl (insert ?b used) rest a'"
    by (simp add: feasibleFrom_def)
  from Cons.IH[OF Cons.prems(1) this]
  have "a' \<in> set (enumAssignments cfg sections confl (insert ?b used) rest)" .
  moreover have "slotOpen sections confl used ?b (sectionIdOf s suf)"
    using sec sid ok nu by (auto simp: slotOpen_iff)
  ultimately show ?case using a c sid suf by auto
qed

lemma search_exact:
  assumes "sectionsMatchConfig scheduleConfig sections" and "distinct studentSubjects"
  shows "set (findValidAssignments studentSubjects studentCode conflictMap sections scheduleConfig) =
     {a. feasible sections (set (conflictsOf conflictMap studentCode)) studentSubjects a}"
  using assms enum_sound[of scheduleConfig sections _ "conflictsOf conflictMap studentCode" "{}" studentSubjects]
    enum_complete[of scheduleConfig sections "conflictsOf conflictMap studentCode" "{}" studentSubjects]
  by (auto simp: findValidAssignments_enum feasibleFrom_def)

lemma busy_match: "sectionsMatchConfig exampleConfig busySections"
  by (simp add: busySections_def exampleSections_def exampleSection_def sectionsMatchConfig_def
      exampleConfig_def example_sectionIds pushStudent_def)

text \<open>
  C1. For one student with a duplicate-free subject list, and sections that were built
  from the schedule config, \<open>findValidAssignments\<close> returns exactly the feasible
  combinations: every returned assignment is complete and satisfies (a) block uniqueness,
  (b) capacity and (c) conflict freedom, and every such assignment is returned. The
  student's conflict set of (c) is the set stored under the student's code in the conflict
  index that the search receives; for the index that the engine builds from the
  conflict pairs it is the set of the students paired with the student, in either order.
\<close>

theorem findValidAssignments_exact:
  assumes "sectionsMatchConfig scheduleConfig sections" and "distinct studentSubjects"
  shows "set (findValidAssignments studentSubjects studentCode conflictMap sections scheduleConfig) =
           {a. feasible sections (adjacentTo conflictMap studentCode) studentSubjects a} \<and>
         set (findValidAssignments studentSubjects studentCode (buildConflictMap conflictPairs)
                sections scheduleConfig) =
           {a. feasible sections (conflictSet conflictPairs studentCode) studentSubjects a}"
proof -
  have entry: "set (conflictsOf conflictMap studentCode) = adjacentTo conflictMap studentCode"
    by (cases "map_of conflictMap studentCode") (simp_all add: conflictsOf_def adjacentTo_def)
  have built: "set (conflictsOf (buildConflictMap conflictPairs) studentCode) =
      conflictSet conflictPairs studentCode"
    by (rule conflictsOf_build)
  from search_exact[OF assms, of studentCode conflictMap]
    search_exact[OF assms, of studentCode "buildConflictMap conflictPairs"]
  show ?thesis unfolding entry built by (rule conjI)
qed

theorem findValidAssignments_exact_witness:
  "sectionsMatchConfig exampleConfig busySections \<and> distinct [1, 2 :: int] \<and>
   findValidAssignments [1, 2] ''A'' (buildConflictMap [(''A'', ''Z'')]) busySections exampleConfig =
     [[(1, ''1.2''), (2, ''2.1'')]] \<and>
   {a. feasible busySections (conflictSet [(''A'', ''Z'')] ''A'') [1, 2] a} =
     {[(1, ''1.2''), (2, ''2.1'')]} \<and>
   {a. feasible busySections (adjacentTo (buildConflictMap [(''A'', ''Z'')]) ''A'') [1, 2] a} =
     {[(1, ''1.2''), (2, ''2.1'')]} \<and>
   {a. feasible exampleSections (conflictSet [] ''A'') [1, 2] a} =
     {[(1, ''1.1''), (2, ''2.2'')], [(1, ''1.2''), (2, ''2.1'')], [(1, ''1.2''), (2, ''2.2'')]}"
proof -
  have d: "distinct [1, 2 :: int]" by simp
  have e: "buildConflictMap [] = []" by (simp add: buildConflictMap_def)
  have index: "buildConflictMap [(''A'', ''Z'')] = [(''A'', [''Z'']), (''Z'', [''A''])]"
    by (simp add: buildConflictMap_def addConflictPair_def setAdd_def Let_def)
  have busy_search:
    "findValidAssignments [1, 2] ''A'' (buildConflictMap [(''A'', ''Z'')]) busySections exampleConfig =
       [[(1, ''1.2''), (2, ''2.1'')]]"
    unfolding index
    by (simp add: busySections_def exampleSections_def exampleSection_def findValidAssignments_def
        processSection_def exampleConfig_def example_sectionIds conflictsOf_def isFull_def
        hasConflict_def Let_def pushStudent_def)
  note busy = findValidAssignments_exact[OF busy_match d, of "''A''"
      "buildConflictMap [(''A'', ''Z'')]" "[(''A'', ''Z'')]"]
  note plain = findValidAssignments_exact[OF example_match d, of "''A''" "[]" "[]"]
  have p: "{a. feasible busySections (conflictSet [(''A'', ''Z'')] ''A'') [1, 2] a} =
      {[(1, ''1.2''), (2, ''2.1'')]}"
    unfolding busy[THEN conjunct2, symmetric] busy_search by simp
  have q: "{a. feasible busySections (adjacentTo (buildConflictMap [(''A'', ''Z'')]) ''A'') [1, 2] a} =
      {[(1, ''1.2''), (2, ''2.1'')]}"
    unfolding busy[THEN conjunct1, symmetric] busy_search by simp
  have r: "{a. feasible exampleSections (conflictSet [] ''A'') [1, 2] a} =
      {[(1, ''1.1''), (2, ''2.2'')], [(1, ''1.2''), (2, ''2.1'')], [(1, ''1.2''), (2, ''2.2'')]}"
    unfolding plain[THEN conjunct2, symmetric] e example_search by simp
  from busy_match d busy_search p q r show ?thesis by (intro conjI)
qed

section \<open>Search results only map configured subjects\<close>

lemma configured_update:
  "configured cfg a \<Longrightarrow> cfg k \<noteq> None \<Longrightarrow> configured cfg (AList.update k v a)"
  by (auto simp: configured_def dom_update)

lemma configured_delete: "configured cfg a \<Longrightarrow> configured cfg (AList.delete k a)"
  by (auto simp: configured_def AList.delete_eq)

lemma processSection_configured:
  assumes rec: "\<And>st'. searchConfigured cfg st' \<Longrightarrow> searchConfigured cfg (recurse st')"
    and c: "cfg subjId \<noteq> None" and st: "searchConfigured cfg st"
  shows "searchConfigured cfg (processSection sections confl subjId recurse blk suf st)"
proof -
  let ?st1 = "st\<lparr>currentAssignment := AList.update subjId (sectionIdOf subjId suf) (currentAssignment st),
                  usedBlocks := insert blk (usedBlocks st)\<rparr>"
  have "searchConfigured cfg ?st1"
    using c st by (simp add: searchConfigured_def configured_update)
  from rec[OF this] have r: "searchConfigured cfg (recurse ?st1)" .
  have "searchConfigured cfg ((recurse ?st1)\<lparr>usedBlocks := usedBlocks (recurse ?st1) - {blk},
           currentAssignment := AList.delete subjId (currentAssignment (recurse ?st1))\<rparr>)"
    using r by (simp add: searchConfigured_def configured_delete)
  then show ?thesis using st
    by (auto simp: processSection_def Let_def split: option.splits)
qed

lemma backtrack_configured:
  "searchConfigured cfg st \<Longrightarrow> searchConfigured cfg (backtrack cfg sections confl subs st)"
proof (induction subs arbitrary: st)
  case Nil
  then show ?case by (simp add: searchConfigured_def)
next
  case (Cons s rest)
  show ?case
  proof (cases "cfg s")
    case None
    then show ?thesis using Cons.prems by simp
  next
    case (Some config)
    then have c: "cfg s \<noteq> None" by simp
    have "searchConfigured cfg (processSection sections confl s (backtrack cfg sections confl rest)
            (s1_block config) ''1'' st)"
      by (rule processSection_configured[OF Cons.IH c Cons.prems])
    from processSection_configured[where recurse="backtrack cfg sections confl rest",
        OF Cons.IH c this]
    have "searchConfigured cfg (processSection sections confl s (backtrack cfg sections confl rest)
            (s2_block config) ''2'' (processSection sections confl s (backtrack cfg sections confl rest)
            (s1_block config) ''1'' st))" .
    then show ?thesis using Some by simp
  qed
qed

lemma penalty_defined:
  "configured cfg a \<Longrightarrow> \<exists>p. preferenceMismatchPenalty cfg pref a acc = Inr p"
proof (induction a arbitrary: acc)
  case Nil
  then show ?case by simp
next
  case (Cons e a)
  obtain s sid where e: "e = (s, sid)" by (cases e)
  from Cons.prems e obtain config where c: "cfg s = Some config"
    by (auto simp: configured_def)
  from Cons.prems have "configured cfg a" by (simp add: configured_def)
  from Cons.IH[OF this] show ?case using e c by (simp add: Let_def)
qed

lemma search_configured:
  assumes "a \<in> set (findValidAssignments studentSubjects studentCode conflictMap sections scheduleConfig)"
  shows "(\<forall>(subjId, sectionId) \<in> set a. scheduleConfig subjId \<noteq> None) \<and>
         (\<exists>cost. calculateAssignmentCost a sectionSizes preference scheduleConfig balancingStrategy
                    = Inr cost)"
proof -
  have "searchConfigured scheduleConfig
          \<lparr>currentAssignment = [], usedBlocks = {}, validAssignments = []\<rparr>"
    by (simp add: searchConfigured_def configured_def)
  from backtrack_configured[OF this] assms have c: "configured scheduleConfig a"
    by (auto simp: findValidAssignments_def searchConfigured_def)
  then have "\<forall>(subjId, sectionId) \<in> set a. scheduleConfig subjId \<noteq> None"
    by (force simp: configured_def)
  moreover have "\<exists>cost. calculateAssignmentCost a sectionSizes preference scheduleConfig
      balancingStrategy = Inr cost"
  proof (cases preference)
    case None
    then show ?thesis by (simp add: calculateAssignmentCost_def)
  next
    case (Some pref)
    from penalty_defined[OF c, of pref 0] obtain p
      where "preferenceMismatchPenalty scheduleConfig pref a 0 = Inr p" by blast
    with Some show ?thesis by (simp add: calculateAssignmentCost_def)
  qed
  ultimately show ?thesis by blast
qed

text \<open>
  C10. Every subject id mapped by an assignment that \<open>findValidAssignments\<close> returns
  has an entry in the schedule config, so \<open>calculateAssignmentCost\<close> applied to a search
  result never takes the \<open>TypeError\<close> branch of its unguarded config lookup: it returns
  a cost, for every snapshot, preference and strategy.
\<close>

theorem search_results_configured:
  assumes "a \<in> set (findValidAssignments studentSubjects studentCode conflictMap sections scheduleConfig)"
  shows "(\<forall>(subjId, sectionId) \<in> set a. scheduleConfig subjId \<noteq> None) \<and>
         (\<exists>cost. calculateAssignmentCost a sectionSizes preference scheduleConfig balancingStrategy
                    = Inr cost)"
  using assms by (rule search_configured)

theorem search_results_configured_witness:
  "[(1, ''1.2''), (2, ''2.2'')] \<in> set (findValidAssignments [1, 2] ''A'' [] exampleSections exampleConfig) \<and>
   exampleConfig 1 \<noteq> None \<and> exampleConfig 2 \<noteq> None \<and>
   calculateAssignmentCost [(1, ''1.2''), (2, ''2.2'')] [] (Some manana) exampleConfig speed = Inr 10"
proof -
  have m: "[(1, ''1.2''), (2, ''2.2'')] \<in>
      set (findValidAssignments [1, 2] ''A'' [] exampleSections exampleConfig)"
    by (simp add: example_search)
  have c: "calculateAssignmentCost [(1, ''1.2''), (2, ''2.2'')] [] (Some manana) exampleConfig speed
      = Inr 10"
    by (simp add: calculateAssignmentCost_def baseCost_def sizeOrZero_def exampleConfig_def
        endsWith_def Let_def)
  from search_results_configured[OF m, of "[]" "Some manana" speed] m c
  show ?thesis by simp
qed

section \<open>The cost of a feasible combination\<close>

lemma fold_update_lookup:
  "distinct (map fst xs) \<Longrightarrow>
   map_of (fold (\<lambda>(k, v) m. AList.update k (f v) m) xs m0) k =
     (case map_of xs k of Some v \<Rightarrow> Some (f v) | None \<Rightarrow> map_of m0 k)"
proof (induction xs arbitrary: m0)
  case Nil
  then show ?case by simp
next
  case (Cons p xs)
  obtain k1 v1 where p: "p = (k1, v1)" by (cases p)
  from Cons.prems p have d: "distinct (map fst xs)" and n: "map_of xs k1 = None"
    by (auto simp: map_of_eq_None_iff)
  show ?case using Cons.IH[OF d, of "AList.update k1 (f v1) m0"] p n
    by (auto simp: update_conv' split: option.splits)
qed

lemma snapshot_lookup:
  "distinct (map fst sections) \<Longrightarrow> sizeOrZero (snapshotSizes sections) sid = occupancy sections sid"
  unfolding sizeOrZero_def snapshotSizes_def occupancy_def
  by (simp add: fold_update_lookup[where f="\<lambda>sec. int (length (students sec))" and ?m0.0="[]"]
      split: option.splits)

lemma fold_plus_sum: "fold (\<lambda>x (c::int). c + f x) xs acc = acc + sum_list (map f xs)"
  by (induction xs arbitrary: acc) auto

lemma baseCost_sum:
  "distinct (map fst sections) \<Longrightarrow>
   baseCost strategy (snapshotSizes sections) a =
     (\<Sum>e\<leftarrow>a. case strategy of speed \<Rightarrow> occupancy sections (snd e)
                 | equitable \<Rightarrow> (occupancy sections (snd e))\<^sup>2)"
  by (cases strategy) (simp_all add: baseCost_def fold_plus_sum snapshot_lookup comp_def)

lemma feasible_entry:
  assumes wf: "sectionsMatchConfig cfg sections" and f: "feasible sections confl subs a"
    and e: "(s, sid) \<in> set a"
  shows "\<exists>config. cfg s = Some config \<and>
     chosenBlock sections (s, sid) =
       Some (if endsWith sid ''.1'' then s1_block config else s2_block config)"
proof -
  from f e obtain sec where sid: "sid = sectionIdOf s ''1'' \<or> sid = sectionIdOf s ''2''"
    and sec: "map_of sections sid = Some sec"
    by (fastforce simp: feasible_def split: option.splits)
  from sid show ?thesis
  proof
    assume s1: "sid = sectionIdOf s ''1''"
    from match_slot[OF wf sec[unfolded s1]] sec s1 show ?thesis
      by (auto simp: chosenBlock_def endsWith_slot1)
  next
    assume s2: "sid = sectionIdOf s ''2''"
    from match_slot[OF wf sec[unfolded s2]] sec s2 show ?thesis
      by (auto simp: chosenBlock_def endsWith_slot2)
  qed
qed

lemma penalty_value:
  assumes "\<forall>(s, sid) \<in> set a. \<exists>config. cfg s = Some config \<and>
     chosenBlock sections (s, sid) =
       Some (if endsWith sid ''.1'' then s1_block config else s2_block config)"
  shows "preferenceMismatchPenalty cfg pref a acc =
     Inr (acc + (case pref of
        manana \<Rightarrow> 10 * int (length (filter (\<lambda>e. chosenBlock sections e = Some afternoonBlock) a))
      | tarde \<Rightarrow> 5 * int (length (filter (\<lambda>e. chosenBlock sections e \<noteq> Some afternoonBlock) a))))"
  using assms
proof (induction a arbitrary: acc)
  case Nil
  then show ?case by (cases pref) simp_all
next
  case (Cons e a)
  obtain s sid where e: "e = (s, sid)" by (cases e)
  from Cons.prems e obtain config where c: "cfg s = Some config"
    and b: "chosenBlock sections (s, sid) =
       Some (if endsWith sid ''.1'' then s1_block config else s2_block config)"
    by auto
  from Cons.prems have r: "\<forall>(s, sid) \<in> set a. \<exists>config. cfg s = Some config \<and>
     chosenBlock sections (s, sid) =
       Some (if endsWith sid ''.1'' then s1_block config else s2_block config)"
    by simp
  note ih = Cons.IH[OF r]
  show ?case
  proof (cases pref)
    case manana
    with ih have "\<And>acc. preferenceMismatchPenalty cfg manana a acc =
       Inr (acc + 10 * int (length (filter (\<lambda>e. chosenBlock sections e = Some afternoonBlock) a)))"
      by simp
    with manana e c b show ?thesis by (simp add: Let_def afternoonBlock_def)
  next
    case tarde
    with ih have "\<And>acc. preferenceMismatchPenalty cfg tarde a acc =
       Inr (acc + 5 * int (length (filter (\<lambda>e. chosenBlock sections e \<noteq> Some afternoonBlock) a)))"
      by simp
    with tarde e c b show ?thesis by (simp add: Let_def afternoonBlock_def)
  qed
qed

lemma cost_value:
  assumes wf: "sectionsMatchConfig scheduleConfig sections"
    and dk: "distinct (map fst sections)"
    and ds: "distinct studentSubjects"
    and a: "a \<in> set (findValidAssignments studentSubjects studentCode conflictMap sections scheduleConfig)"
  shows "calculateAssignmentCost a (snapshotSizes sections) preference scheduleConfig balancingStrategy
           = Inr (specCost sections balancingStrategy preference a)"
proof -
  from search_exact[OF wf ds, of studentCode conflictMap] a
  have f: "feasible sections (set (conflictsOf conflictMap studentCode)) studentSubjects a" by auto
  have en: "\<forall>(s, sid) \<in> set a. \<exists>config. scheduleConfig s = Some config \<and>
     chosenBlock sections (s, sid) =
       Some (if endsWith sid ''.1'' then s1_block config else s2_block config)"
    using feasible_entry[OF wf f] by blast
  show ?thesis
  proof (cases preference)
    case None
    then show ?thesis by (simp add: calculateAssignmentCost_def specCost_def baseCost_sum[OF dk])
  next
    case (Some pref)
    then show ?thesis
      by (cases pref)
        (simp_all add: calculateAssignmentCost_def specCost_def baseCost_sum[OF dk]
          penalty_value[OF en])
  qed
qed

text \<open>
  C6. The cost that \<open>calculateAssignmentCost\<close> returns for a feasible assignment,
  against the snapshot of the current section sizes, is the cost of the specification:
  the sum of the occupant counts (speed) or of their squares (equitable) of the chosen
  sections, plus 10 per chosen afternoon section for a morning preference, plus 5 per
  chosen non-afternoon section for an afternoon preference, and no penalty without a
  preference.
\<close>

theorem cost_formula:
  assumes "sectionsMatchConfig scheduleConfig sections"
    and "distinct (map fst sections)"
    and "distinct studentSubjects"
    and "a \<in> set (findValidAssignments studentSubjects studentCode conflictMap sections scheduleConfig)"
  shows "calculateAssignmentCost a (snapshotSizes sections) preference scheduleConfig balancingStrategy
           = Inr (specCost sections balancingStrategy preference a)"
  using assms by (rule cost_value)

theorem cost_formula_witness:
  "sectionsMatchConfig exampleConfig (pushStudent ''2.2'' ''Z'' exampleSections) \<and>
   distinct (map fst (pushStudent ''2.2'' ''Z'' exampleSections)) \<and> distinct [1, 2 :: int] \<and>
   [(1, ''1.2''), (2, ''2.2'')] \<in> set (findValidAssignments [1, 2] ''A'' []
      (pushStudent ''2.2'' ''Z'' exampleSections) exampleConfig) \<and>
   calculateAssignmentCost [(1, ''1.2''), (2, ''2.2'')]
      (snapshotSizes (pushStudent ''2.2'' ''Z'' exampleSections)) (Some manana) exampleConfig equitable
     = Inr 11"
proof -
  let ?secs = "pushStudent ''2.2'' ''Z'' exampleSections"
  have d: "distinct (map fst ?secs)" and d2: "distinct [1, 2 :: int]"
    by (simp_all add: exampleSections_def pushStudent_def)
  have m: "[(1, ''1.2''), (2, ''2.2'')] \<in> set (findValidAssignments [1, 2] ''A'' [] ?secs exampleConfig)"
    by (simp add: exampleSections_def exampleSection_def findValidAssignments_def
        processSection_def exampleConfig_def example_sectionIds conflictsOf_def isFull_def
        hasConflict_def Let_def pushStudent_def)
  have v: "specCost ?secs equitable (Some manana) [(1, ''1.2''), (2, ''2.2'')] = 11"
    by (simp add: specCost_def occupancy_def chosenBlock_def afternoonBlock_def pushStudent_def
        exampleSections_def exampleSection_def)
  from cost_formula[OF example_match_push d d2 m, of "Some manana" equitable] v d d2 m
    example_match_push[of "''2.2''" "''Z''"]
  show ?thesis by simp
qed

section \<open>Selection of the cheapest combination\<close>

lemma firstMinimum_snoc_keep:
  "firstMinimum val xs i \<Longrightarrow> val (xs ! i) \<le> val a \<Longrightarrow> firstMinimum val (xs @ [a]) i"
  by (auto simp: firstMinimum_def nth_append less_Suc_eq)

lemma firstMinimum_snoc_new:
  "firstMinimum val xs i \<Longrightarrow> val a < val (xs ! i) \<Longrightarrow> firstMinimum val (xs @ [a]) (length xs)"
  by (fastforce simp: firstMinimum_def nth_append less_Suc_eq)

lemma selectLoop_first_min:
  assumes "\<forall>a \<in> set rest. \<exists>c. costOf a = Inr c"
    and "firstMinimum (costValue costOf) pre i"
  shows "\<exists>k. selectLoop costOf rest (pre ! i) (costValue costOf (pre ! i)) = Inr ((pre @ rest) ! k) \<and>
             firstMinimum (costValue costOf) (pre @ rest) k"
  using assms
proof (induction rest arbitrary: pre i)
  case Nil
  then show ?case by auto
next
  case (Cons a rest)
  from Cons.prems(1) obtain c where c: "costOf a = Inr c" by auto
  then have v: "costValue costOf a = c" by (simp add: costValue_def)
  from Cons.prems(1) have r: "\<forall>a \<in> set rest. \<exists>c. costOf a = Inr c" by simp
  from Cons.prems(2) have il: "i < length pre" by (simp add: firstMinimum_def)
  show ?case
  proof (cases "c < costValue costOf (pre ! i)")
    case True
    with Cons.prems(2) v have fm: "firstMinimum (costValue costOf) (pre @ [a]) (length pre)"
      by (simp add: firstMinimum_snoc_new)
    from Cons.IH[OF r fm] True c v show ?thesis by simp
  next
    case False
    with Cons.prems(2) v have fm: "firstMinimum (costValue costOf) (pre @ [a]) i"
      by (simp add: firstMinimum_snoc_keep)
    from Cons.IH[OF r fm] False c il show ?thesis by (simp add: nth_append)
  qed
qed

lemma selectBest_first_min:
  assumes "\<forall>a \<in> set xs. \<exists>c. costOf a = Inr c" and "xs \<noteq> []"
  shows "\<exists>k. selectBest costOf xs = Inr (xs ! k) \<and> firstMinimum (costValue costOf) xs k"
proof -
  from assms(2) obtain x rest where xs: "xs = x # rest" by (cases xs) auto
  with assms(1) obtain c where c: "costOf x = Inr c" by auto
  have fm: "firstMinimum (costValue costOf) [x] 0" by (simp add: firstMinimum_def)
  from assms(1) xs have r: "\<forall>a \<in> set rest. \<exists>c. costOf a = Inr c" by simp
  from selectLoop_first_min[OF r fm] c xs show ?thesis
    by (simp add: selectBest_def costValue_def)
qed

lemma distinct_fold_setAdd: "distinct acc \<Longrightarrow> distinct (fold setAdd xs acc)"
  by (induction xs arbitrary: acc) (auto simp: setAdd_def)

lemma set_fold_setAdd: "set (fold setAdd xs acc) = set xs \<union> set acc"
  by (induction xs arbitrary: acc) (auto simp: setAdd_def)

lemma distinct_resolveSubjects: "distinct (resolveSubjects subjectsConfig rawSubjects)"
  by (simp add: resolveSubjects_def distinct_fold_setAdd)

lemma commit_Nil: "commitAssignment code [] sections = sections"
  by (simp add: commitAssignment_def)

lemma search_Nil: "findValidAssignments [] code cm sections cfg = [[]]"
  by (simp add: findValidAssignments_def)

lemma processStudent_commits:
  fixes enrollments studentCodeToName studentPreferences conflictMap subjectsConfig scheduleConfig
    balancingStrategy studentCode st
  defines "studentSubjects \<equiv> resolveSubjects subjectsConfig
      (case map_of enrollments studentCode of None \<Rightarrow> [] | Some s \<Rightarrow> s)"
  defines "found \<equiv> findValidAssignments studentSubjects studentCode conflictMap (run_sections st)
      scheduleConfig"
  defines "costOf \<equiv> \<lambda>a. calculateAssignmentCost a (snapshotSizes (run_sections st))
      (studentPreferences studentCode) scheduleConfig balancingStrategy"
  assumes ne: "found \<noteq> []"
  shows "\<exists>i st'. processStudent enrollments studentCodeToName studentPreferences conflictMap
            subjectsConfig scheduleConfig balancingStrategy studentCode st = Inr st' \<and>
          run_sections st' = commitAssignment studentCode (found ! i) (run_sections st) \<and>
          run_unassignedStudents st' = run_unassignedStudents st \<and>
          firstMinimum (costValue costOf) found i"
proof (cases "studentSubjects = []")
  case True
  then have "found = [[]]" by (simp add: found_def search_Nil)
  moreover have "processStudent enrollments studentCodeToName studentPreferences conflictMap
            subjectsConfig scheduleConfig balancingStrategy studentCode st = Inr st"
    using True by (simp add: processStudent_def studentSubjects_def)
  ultimately show ?thesis
    by (intro exI[of _ 0] exI[of _ st]) (simp add: commit_Nil firstMinimum_def)
next
  case False
  have "\<forall>a \<in> set found. \<exists>c. costOf a = Inr c"
    unfolding found_def costOf_def using search_configured by blast
  from selectBest_first_min[OF this ne] obtain k where
    k: "selectBest costOf found = Inr (found ! k)" "firstMinimum (costValue costOf) found k"
    by blast
  have "processStudent enrollments studentCodeToName studentPreferences conflictMap
            subjectsConfig scheduleConfig balancingStrategy studentCode st =
        Inr (st\<lparr>run_combinationsChecked := run_combinationsChecked st + length found,
              run_sections := commitAssignment studentCode (found ! k) (run_sections st)\<rparr>)"
    using False ne k(1)
    unfolding processStudent_def studentSubjects_def[symmetric] Let_def found_def[symmetric]
    by (simp add: costOf_def)
  with k(2) show ?thesis by auto
qed

section \<open>The manual override validation\<close>

lemma blockClash_value:
  "\<forall>sid \<in> set ids. map_of sections sid \<noteq> None \<Longrightarrow>
   blockClash sections ids used =
     Inr (\<not> (distinct (map (\<lambda>sid. map_option block (map_of sections sid)) ids) \<and>
             (\<forall>sid \<in> set ids. \<forall>b. map_option block (map_of sections sid) = Some b \<longrightarrow> b \<notin> used)))"
proof (induction ids arbitrary: used)
  case Nil
  then show ?case by simp
next
  case (Cons sid ids)
  from Cons.prems obtain sec where sec: "map_of sections sid = Some sec" by auto
  from Cons.prems have r: "\<forall>sid \<in> set ids. map_of sections sid \<noteq> None" by simp
  define f where "f = (\<lambda>sid. map_option block (map_of sections sid))"
  have fs: "f sid = Some (block sec)" using sec by (simp add: f_def)
  show ?case
  proof (cases "block sec \<in> used")
    case True
    with sec fs show ?thesis unfolding f_def[symmetric] by auto
  next
    case False
    have k: "(f sid \<notin> f ` set ids) = (\<forall>s \<in> set ids. \<forall>b. f s = Some b \<longrightarrow> b \<noteq> block sec)"
      unfolding fs by (metis (mono_tags, lifting) image_iff)
    have "(distinct (map f (sid # ids)) \<and> (\<forall>s \<in> set (sid # ids). \<forall>b. f s = Some b \<longrightarrow> b \<notin> used)) =
          (distinct (map f ids) \<and> (\<forall>s \<in> set ids. \<forall>b. f s = Some b \<longrightarrow> b \<notin> insert (block sec) used))"
      using False fs k by auto
    moreover have "blockClash sections (sid # ids) used =
        Inr (\<not> (distinct (map f ids) \<and> (\<forall>s \<in> set ids. \<forall>b. f s = Some b \<longrightarrow> b \<notin> insert (block sec) used)))"
      using False sec Cons.IH[OF r, of "insert (block sec) used"] by (simp add: f_def)
    ultimately show ?thesis unfolding f_def by simp
  qed
qed

lemma checkSelected_value:
  "\<forall>sid \<in> set ids. map_of sections sid \<noteq> None \<Longrightarrow>
   \<exists>v. checkSelected sections confl code ids = Inr v \<and>
       (isValid v \<longleftrightarrow>
          (\<forall>sid \<in> set ids. case map_of sections sid of None \<Rightarrow> False
             | Some sec \<Rightarrow> int (length (filter (\<lambda>s. s \<noteq> code) (students sec))) < capacity sec \<and>
                 (\<forall>occupant \<in> set (students sec). occupant \<notin> set confl))) \<and>
       (if isValid v then message v = AssignmentIsValid
        else (\<exists>sid \<in> set ids. message v = CoexistenceConflict sid \<or>
                (\<exists>c. message v = SectionIsFull sid c)))"
proof (induction ids)
  case Nil
  then show ?case by simp
next
  case (Cons sid ids)
  from Cons.prems obtain sec where sec: "map_of sections sid = Some sec" by auto
  from Cons.prems have r: "\<forall>sid \<in> set ids. map_of sections sid \<noteq> None" by simp
  from Cons.IH[OF r] obtain v where v: "checkSelected sections confl code ids = Inr v"
    "isValid v \<longleftrightarrow>
          (\<forall>sid \<in> set ids. case map_of sections sid of None \<Rightarrow> False
             | Some sec \<Rightarrow> int (length (filter (\<lambda>s. s \<noteq> code) (students sec))) < capacity sec \<and>
                 (\<forall>occupant \<in> set (students sec). occupant \<notin> set confl))"
    "if isValid v then message v = AssignmentIsValid
        else (\<exists>sid \<in> set ids. message v = CoexistenceConflict sid \<or>
                (\<exists>c. message v = SectionIsFull sid c))"
    by blast
  consider (full) "int (length (filter (\<lambda>s. s \<noteq> code) (students sec))) \<ge> capacity sec"
    | (conf) "int (length (filter (\<lambda>s. s \<noteq> code) (students sec))) < capacity sec"
        "\<exists>otherStudent \<in> set (students sec). otherStudent \<in> set confl"
    | (ok) "int (length (filter (\<lambda>s. s \<noteq> code) (students sec))) < capacity sec"
        "\<forall>otherStudent \<in> set (students sec). otherStudent \<notin> set confl"
    by fastforce
  then show ?case
  proof cases
    case full
    with sec show ?thesis by auto
  next
    case conf
    with sec show ?thesis by auto
  next
    case ok
    with sec have "checkSelected sections confl code (sid # ids) = Inr v"
      using v(1) by auto
    with v(2,3) ok sec show ?thesis by (cases "isValid v") auto
  qed
qed

lemma validate_value:
  assumes len: "length selected = length studentSubjects"
    and ex: "\<forall>sid \<in> set selected. map_of sections sid \<noteq> None"
  shows "\<exists>v. validate sections conflictPairs code studentSubjects selected validation = Inr v \<and>
     (isValid v \<longleftrightarrow> overrideValid sections (conflictSet conflictPairs code) code selected) \<and>
     (\<not> isValid v \<longrightarrow> message v \<noteq> NoMessage \<and> message v \<noteq> AssignmentIsValid)"
proof (cases "distinct (map (\<lambda>sid. map_option block (map_of sections sid)) selected)")
  case False
  then show ?thesis using len blockClash_value[OF ex, of "{}"]
    by (simp add: validate_def overrideValid_def)
next
  case True
  from checkSelected_value[OF ex, of "conflictsOf (buildConflictMap conflictPairs) code" code]
  obtain v where v: "checkSelected sections (conflictsOf (buildConflictMap conflictPairs) code) code selected = Inr v"
    "isValid v \<longleftrightarrow>
          (\<forall>sid \<in> set selected. case map_of sections sid of None \<Rightarrow> False
             | Some sec \<Rightarrow> int (length (filter (\<lambda>s. s \<noteq> code) (students sec))) < capacity sec \<and>
                 (\<forall>occupant \<in> set (students sec). occupant \<notin> conflictSet conflictPairs code))"
    "if isValid v then message v = AssignmentIsValid
        else (\<exists>sid \<in> set selected. message v = CoexistenceConflict sid \<or>
                (\<exists>c. message v = SectionIsFull sid c))"
    unfolding conflictsOf_build by blast
  have "validate sections conflictPairs code studentSubjects selected validation = Inr v"
    using True len blockClash_value[OF ex, of "{}"] v(1) by (simp add: validate_def)
  moreover have "isValid v \<longleftrightarrow> overrideValid sections (conflictSet conflictPairs code) code selected"
    using True v(2) by (simp add: overrideValid_def)
  moreover have "\<not> isValid v \<longrightarrow> message v \<noteq> NoMessage \<and> message v \<noteq> AssignmentIsValid"
    using v(3) by auto
  ultimately show ?thesis by blast
qed

text \<open>
  C8. For a replacement that selects one section per subject of the student, all of
  them existing sections, the editor's validation reports an outcome; it reports valid
  if and only if no two selected sections share a block, every selected section has
  fewer occupants other than the student than its capacity, and no selected section
  holds an occupant of the student's conflict set; an invalid outcome carries one of the
  three reason messages.
\<close>

theorem manual_override_validation:
  assumes "length selected = length studentSubjects"
    and "\<forall>sid \<in> set selected. map_of sections sid \<noteq> None"
  shows "\<exists>v. validate sections conflictPairs code studentSubjects selected validation = Inr v \<and>
     (isValid v \<longleftrightarrow> overrideValid sections (conflictSet conflictPairs code) code selected) \<and>
     (\<not> isValid v \<longrightarrow> message v \<noteq> NoMessage \<and> message v \<noteq> AssignmentIsValid)"
  using assms by (rule validate_value)

theorem manual_override_validation_witness:
  "length [''1.2'', ''2.1''] = length (take 2 exampleSubjects) \<and>
   map_of crowdedSections ''1.2'' \<noteq> None \<and> map_of crowdedSections ''2.1'' \<noteq> None \<and>
   validate crowdedSections [(''A'', ''P'')] ''A'' (take 2 exampleSubjects) [''1.2'', ''2.1'']
      \<lparr>isValid = True, message = NoMessage\<rparr> = Inr \<lparr>isValid = True, message = AssignmentIsValid\<rparr> \<and>
   overrideValid crowdedSections (conflictSet [(''A'', ''P'')] ''A'') ''A'' [''1.2'', ''2.1'']"
proof -
  have l: "length [''1.2'', ''2.1''] = length (take 2 exampleSubjects)"
    by (simp add: exampleSubjects_def)
  have e: "\<forall>sid \<in> set [''1.2'', ''2.1'']. map_of crowdedSections sid \<noteq> None"
    by (simp add: crowdedSections_def exampleSections_def pushStudent_def)
  have cm: "conflictsOf (buildConflictMap [(''A'', ''P'')]) ''A'' = [''P'']"
    by (simp add: buildConflictMap_def addConflictPair_def conflictsOf_def setAdd_def Let_def)
  have v: "validate crowdedSections [(''A'', ''P'')] ''A'' (take 2 exampleSubjects) [''1.2'', ''2.1'']
      \<lparr>isValid = True, message = NoMessage\<rparr> = Inr \<lparr>isValid = True, message = AssignmentIsValid\<rparr>"
    by (simp add: validate_def cm exampleSubjects_def crowdedSections_def exampleSections_def
        exampleSection_def pushStudent_def)
  from manual_override_validation[OF l e, of "[(''A'', ''P'')]" "''A''"
      "\<lparr>isValid = True, message = NoMessage\<rparr>"] v l e
  show ?thesis by auto
qed

section \<open>Failure diagnosis\<close>

lemma diagnose_schedule_iff:
  "d_type (diagnoseFailure allSubjects studentCode studentSubjects conflictMap sections
             studentCodeToName scheduleConfig) = SCHEDULE \<longleftrightarrow>
     findValidAssignments studentSubjects [] [] sections scheduleConfig = [] \<and>
     (\<forall>subjId \<in> set studentSubjects. \<not> bothSectionsFull scheduleConfig sections subjId)"
proof -
  have f: "(find (bothSectionsFull scheduleConfig sections) studentSubjects = None) =
      (\<forall>subjId \<in> set studentSubjects. \<not> bothSectionsFull scheduleConfig sections subjId)"
    by (auto simp: find_None_iff)
  show ?thesis unfolding f[symmetric]
    by (simp add: diagnoseFailure_def Let_def split: option.splits)
qed

lemma crowded_search: "findValidAssignments [1, 3] [] [] crowdedSections exampleConfig = []"
  by (simp add: crowdedSections_def exampleSections_def exampleSection_def findValidAssignments_def
      processSection_def exampleConfig_def example_sectionIds conflictsOf_def isFull_def
      hasConflict_def Let_def pushStudent_def)

lemma crowded_notfull:
  "\<not> bothSectionsFull exampleConfig crowdedSections 1" "\<not> bothSectionsFull exampleConfig crowdedSections 3"
  by (simp_all add: crowdedSections_def exampleSections_def exampleSection_def bothSectionsFull_def
      exampleConfig_def example_sectionIds isFull_def pushStudent_def)

lemma crowded_value:
  "crowdedSections =
     [(''1.1'', exampleSection ''1.1'' 1 ''ALGEBRA'' 1 [''P''] 1),
      (''1.2'', exampleSection ''1.2'' 1 ''ALGEBRA'' 2 [] 1),
      (''2.1'', exampleSection ''2.1'' 2 ''BIOLOGIA'' 1 [] 2),
      (''2.2'', exampleSection ''2.2'' 2 ''BIOLOGIA'' 3 [] 2),
      (''3.1'', exampleSection ''3.1'' 3 ''CIVICA'' 1 [''Q''] 1),
      (''3.2'', exampleSection ''3.2'' 3 ''CIVICA'' 2 [] 1)]"
  by (simp add: crowdedSections_def exampleSections_def exampleSection_def pushStudent_def)

lemma blocked_diagnosis:
  "diagnoseFailure exampleSubjects ''A'' [1, 3] [] crowdedSections Map.empty exampleConfig =
     \<lparr>d_type = SCHEDULE, d_reason = ScheduleReason, d_subjects = [''ALGEBRA'', ''CIVICA''],
      d_conflictingSubjects = [''ALGEBRA'', ''CIVICA'']\<rparr>"
proof -
  have f: "find (bothSectionsFull exampleConfig crowdedSections) [1, 3] = None"
    using crowded_notfull by simp
  have n: "map (getSubjectNameById exampleSubjects) [1, 3] = [''ALGEBRA'', ''CIVICA'']"
    by (simp add: getSubjectNameById_def exampleSubjects_def)
  have p: "conflictingPairs exampleConfig exampleSubjects [1, 3] [] = [''ALGEBRA'', ''CIVICA'']"
    by (simp add: getSubjectNameById_def exampleSubjects_def sameBlockSets_def exampleConfig_def
        setAdd_def)
  show ?thesis
    unfolding diagnoseFailure_def Let_def crowded_search f n p by simp
qed

lemma blocked_step_P:
  "processStudent blockedEnrollments Map.empty Map.empty [] exampleSubjects exampleConfig speed ''P''
     \<lparr>run_sections = exampleSections, run_unassignedStudents = [], run_combinationsChecked = 0\<rparr> =
   Inr \<lparr>run_sections = pushStudent ''1.1'' ''P'' exampleSections,
        run_unassignedStudents = [], run_combinationsChecked = 2\<rparr>"
proof -
  have r: "resolveSubjects exampleSubjects [''ALGEBRA''] = [1]"
    by (simp add: resolveSubjects_def exampleSubjects_def List.map_filter_def setAdd_def)
  have f: "findValidAssignments [1] ''P'' [] exampleSections exampleConfig =
      [[(1, ''1.1'')], [(1, ''1.2'')]]"
    by (simp add: findValidAssignments_def processSection_def conflictsOf_def isFull_def hasConflict_def Let_def
        exampleConfig_def example_sectionIds exampleSection_def exampleSections_def)
  have s: "selectBest (\<lambda>a. calculateAssignmentCost a (snapshotSizes exampleSections) None
        exampleConfig speed) [[(1, ''1.1'')], [(1, ''1.2'')]] = Inr [(1, ''1.1'')]"
    by (simp add: selectBest_def calculateAssignmentCost_def baseCost_def sizeOrZero_def
        snapshotSizes_def exampleSections_def exampleSection_def)
  show ?thesis
    by (simp add: processStudent_def blockedEnrollments_def r f s commitAssignment_def)
qed

lemma blocked_step_Q:
  "processStudent blockedEnrollments Map.empty Map.empty [] exampleSubjects exampleConfig speed ''Q''
     \<lparr>run_sections = pushStudent ''1.1'' ''P'' exampleSections,
      run_unassignedStudents = [], run_combinationsChecked = 2\<rparr> =
   Inr \<lparr>run_sections = crowdedSections, run_unassignedStudents = [], run_combinationsChecked = 4\<rparr>"
proof -
  let ?secs = "pushStudent ''1.1'' ''P'' exampleSections"
  have r: "resolveSubjects exampleSubjects [''CIVICA''] = [3]"
    by (simp add: resolveSubjects_def exampleSubjects_def List.map_filter_def setAdd_def)
  have f: "findValidAssignments [3] ''Q'' [] ?secs exampleConfig = [[(3, ''3.1'')], [(3, ''3.2'')]]"
    by (simp add: findValidAssignments_def processSection_def conflictsOf_def isFull_def hasConflict_def Let_def
        exampleConfig_def example_sectionIds exampleSection_def exampleSections_def pushStudent_def)
  have s: "selectBest (\<lambda>a. calculateAssignmentCost a (snapshotSizes ?secs) None
        exampleConfig speed) [[(3, ''3.1'')], [(3, ''3.2'')]] = Inr [(3, ''3.1'')]"
    by (simp add: selectBest_def calculateAssignmentCost_def baseCost_def sizeOrZero_def
        snapshotSizes_def exampleSections_def exampleSection_def pushStudent_def)
  show ?thesis
    by (simp add: processStudent_def blockedEnrollments_def r f s commitAssignment_def
        crowdedSections_def)
qed

lemma blocked_step_A:
  "processStudent blockedEnrollments Map.empty Map.empty [] exampleSubjects exampleConfig speed ''A''
     \<lparr>run_sections = crowdedSections, run_unassignedStudents = [], run_combinationsChecked = 4\<rparr> =
   Inr \<lparr>run_sections = crowdedSections,
        run_unassignedStudents =
          [\<lparr>d_type = SCHEDULE, d_reason = ScheduleReason, d_subjects = [''ALGEBRA'', ''CIVICA''],
            d_conflictingSubjects = [''ALGEBRA'', ''CIVICA''], u_studentCode = ''A''\<rparr>],
        run_combinationsChecked = 4\<rparr>"
proof -
  have r: "resolveSubjects exampleSubjects [''ALGEBRA'', ''CIVICA''] = [1, 3]"
    by (simp add: resolveSubjects_def exampleSubjects_def List.map_filter_def setAdd_def)
  have f: "findValidAssignments [1, 3] ''A'' [] crowdedSections exampleConfig = []"
    by (simp add: findValidAssignments_def processSection_def conflictsOf_def isFull_def hasConflict_def Let_def
        exampleConfig_def example_sectionIds exampleSection_def crowded_value)
  show ?thesis
    by (simp add: processStudent_def blockedEnrollments_def r f blocked_diagnosis
        Diagnosis.extend_def UnassignedStudentInfo.fields_def)
qed

lemma blockedRun_value:
  "blockedRun =
     Inr (assembleResult blockedEnrollments Map.empty Map.empty
       \<lparr>run_sections = crowdedSections,
        run_unassignedStudents =
          [\<lparr>d_type = SCHEDULE, d_reason = ScheduleReason, d_subjects = [''ALGEBRA'', ''CIVICA''],
            d_conflictingSubjects = [''ALGEBRA'', ''CIVICA''], u_studentCode = ''A''\<rparr>],
        run_combinationsChecked = 4\<rparr>)"
proof -
  have c: "buildConflictMap [] = []" by (simp add: buildConflictMap_def)
  have l: "filter (\<lambda>code. code \<notin> fst ` set []) (map fst blockedEnrollments) = [''P'', ''Q'', ''A'']"
    by (simp add: blockedEnrollments_def)
  have p: "placePreassigned [] exampleSections = Inr exampleSections" by simp
  have v: "validatePreassigned [] exampleSections [] = None" by simp
  have loop: "scheduleLoop
      (processStudent blockedEnrollments Map.empty Map.empty [] exampleSubjects exampleConfig speed)
      [''P'', ''Q'', ''A'']
      \<lparr>run_sections = exampleSections, run_unassignedStudents = [], run_combinationsChecked = 0\<rparr> =
    Inr \<lparr>run_sections = crowdedSections,
        run_unassignedStudents =
          [\<lparr>d_type = SCHEDULE, d_reason = ScheduleReason, d_subjects = [''ALGEBRA'', ''CIVICA''],
            d_conflictingSubjects = [''ALGEBRA'', ''CIVICA''], u_studentCode = ''A''\<rparr>],
        run_combinationsChecked = 4\<rparr>"
    by (simp add: blocked_step_P blocked_step_Q blocked_step_A)
  show ?thesis
    unfolding blockedRun_def scheduleStudents_def Let_def c example_buildSections
      p l v loop sum.case option.case
    by (rule refl)
qed

text \<open>
  C2. The diagnoser re-runs the combination search with the conflict constraint disabled
  (empty student code, empty conflict index) but with the capacity constraint still
  enforced. With P in section 1.1 and Q in section 3.1 (both of capacity 1), a student
  enrolled in subjects 1 and 3 is therefore diagnosed SCHEDULE although the search with
  capacity and conflicts disabled, which checks block uniqueness only, finds two
  combinations. A complete run reaches this state: P takes ALGEBRA, Q takes CIVICA, and A,
  who takes both, is reported unassigned with the SCHEDULE diagnosis.
\<close>

theorem schedule_diagnosis_with_open_combinations:
  "d_type (diagnoseFailure exampleSubjects ''A'' [1, 3] [] crowdedSections Map.empty exampleConfig)
     = SCHEDULE \<and>
   findValidAssignments [1, 3] [] [] crowdedSections exampleConfig = [] \<and>
   blockOnlyAssignments exampleConfig crowdedSections {} [1, 3] =
     [[(1, ''1.1''), (3, ''3.2'')], [(1, ''1.2''), (3, ''3.1'')]] \<and>
   (\<exists>r. blockedRun = Inr r \<and> result_sections r = crowdedSections \<and>
        map (\<lambda>u. (u_studentCode u, d_type u, d_reason u)) (result_unassignedStudents r) =
          [(''A'', SCHEDULE, ScheduleReason)])"
proof -
  have b: "blockOnlyAssignments exampleConfig crowdedSections {} [1, 3] =
     [[(1, ''1.1''), (3, ''3.2'')], [(1, ''1.2''), (3, ''3.1'')]]"
    by (simp add: crowdedSections_def exampleSections_def exampleSection_def exampleConfig_def
        example_sectionIds pushStudent_def)
  have d: "d_type (diagnoseFailure exampleSubjects ''A'' [1, 3] [] crowdedSections Map.empty
      exampleConfig) = SCHEDULE"
    by (simp add: blocked_diagnosis)
  have r: "\<exists>r. blockedRun = Inr r \<and> result_sections r = crowdedSections \<and>
        map (\<lambda>u. (u_studentCode u, d_type u, d_reason u)) (result_unassignedStudents r) =
          [(''A'', SCHEDULE, ScheduleReason)]"
    unfolding blockedRun_value by (simp add: assembleResult_def)
  from d crowded_search b r show ?thesis by (intro conjI)
qed

section \<open>Result assembly\<close>

lemma fold_setAdd_sections:
  "set (fold (\<lambda>(sectionId, sec) acc. fold setAdd (students sec) acc) sections acc0) =
     set acc0 \<union> occupants sections \<and>
   (distinct acc0 \<longrightarrow>
      distinct (fold (\<lambda>(sectionId, sec) acc. fold setAdd (students sec) acc) sections acc0))"
proof (induction sections arbitrary: acc0)
  case Nil
  then show ?case by (simp add: occupants_def)
next
  case (Cons p sections)
  obtain sid sec where p: "p = (sid, sec)" by (cases p)
  have o: "occupants (p # sections) = set (students sec) \<union> occupants sections"
    using p by (simp add: occupants_def)
  show ?case using Cons.IH[of "fold setAdd (students sec) acc0"] p o
    by (auto simp: set_fold_setAdd distinct_fold_setAdd)
qed

lemma assignedStudentsSet_set: "set (assignedStudentsSet sections) = occupants sections"
  using fold_setAdd_sections[of sections "[]"] by (simp add: assignedStudentsSet_def)

lemma assignedStudentsSet_distinct: "distinct (assignedStudentsSet sections)"
  using fold_setAdd_sections[of sections "[]"] by (simp add: assignedStudentsSet_def)

lemma assignedStudentsSet_length: "length (assignedStudentsSet sections) = card (occupants sections)"
  using assignedStudentsSet_set[of sections] assignedStudentsSet_distinct[of sections]
  by (metis distinct_card)

lemma buildStudentAssignments_keys:
  "k \<in> fst ` set (fold (\<lambda>(studentCode, assignedSections) studentAssignments.
             case studentCourses studentCode of
               None \<Rightarrow> studentAssignments
             | Some course \<Rightarrow>
                 if course = [] then studentAssignments
                 else AList.update studentCode
                        \<lparr>sa_name = displayName studentCodeToName studentCode,
                         sa_code = studentCode,
                         sa_course = course,
                         sa_sections = sort assignedSections\<rparr>
                        studentAssignments)
       toSections acc) \<Longrightarrow> k \<in> fst ` set acc \<or> studentCourses k \<noteq> None"
proof (induction toSections arbitrary: acc)
  case Nil
  then show ?case by simp
next
  case (Cons p toSections)
  obtain c l where p: "p = (c, l)" by (cases p)
  show ?case
  proof (cases "studentCourses c")
    case None
    with Cons p show ?thesis by simp
  next
    case (Some course)
    show ?thesis
    proof (cases "course = []")
      case True
      with Cons p Some show ?thesis by simp
    next
      case False
      from Cons.prems p Some False
      have "k \<in> fst ` set (AList.update c
                        \<lparr>sa_name = displayName studentCodeToName c, sa_code = c,
                         sa_course = course, sa_sections = sort l\<rparr> acc) \<or> studentCourses k \<noteq> None"
        by (intro Cons.IH) simp
      then show ?thesis using Some by (auto simp: dom_update)
    qed
  qed
qed

lemma studentAssignments_unknown_course:
  "studentCourses code = None \<Longrightarrow>
   map_of (buildStudentAssignments studentCourses studentCodeToName toSections) code = None"
  using buildStudentAssignments_keys[where k = code and studentCourses = studentCourses
      and studentCodeToName = studentCodeToName and toSections = toSections and acc = "[]"]
  by (auto simp: buildStudentAssignments_def map_of_eq_None_iff)

lemma scheduleStudents_result:
  assumes "scheduleStudents enrollments studentCourses studentCodeToName studentPreferences
       preassignedSections conflictPairs subjectsConfig scheduleConfig balancingStrategy = Inr res"
  shows "\<exists>sections1 st.
     placePreassigned preassignedSections (buildSections subjectsConfig scheduleConfig) = Inr sections1 \<and>
     validatePreassigned (buildConflictMap conflictPairs) sections1 preassignedSections = None \<and>
     scheduleLoop
       (processStudent enrollments studentCodeToName studentPreferences
          (buildConflictMap conflictPairs) subjectsConfig scheduleConfig balancingStrategy)
       (filter (\<lambda>code. code \<notin> fst ` set preassignedSections) (map fst enrollments))
       \<lparr>run_sections = sections1, run_unassignedStudents = [], run_combinationsChecked = 0\<rparr> = Inr st \<and>
     res = assembleResult enrollments studentCourses studentCodeToName st"
  using assms
  by (auto simp: scheduleStudents_def Let_def split: sum.splits option.splits)

section \<open>Pushing students into sections\<close>

lemma keys_map_entry: "map fst (AList.map_entry k f xs) = map fst xs"
  by (induction xs) auto

lemma keys_pushStudent: "map fst (pushStudent sid c secs) = map fst secs"
  by (simp add: pushStudent_def keys_map_entry)

lemma map_of_pushStudent:
  "map_of (pushStudent sid c secs) k =
     (if k = sid then map_option (addOccupants (Suc 0) c) (map_of secs k) else map_of secs k)"
  by (cases "map_of secs sid")
     (auto simp: pushStudent_def map_of_map_entry addOccupants_def)

lemma keys_pushes: "map fst (pushes sids c secs) = map fst secs"
  unfolding pushes_def by (induction sids arbitrary: secs) (simp_all add: keys_pushStudent)

lemma addOccupants_0: "addOccupants 0 c sec = sec"
  by (simp add: addOccupants_def)

lemma addOccupants_Suc: "addOccupants n c (addOccupants (Suc 0) c sec) = addOccupants (Suc n) c sec"
  by (simp add: addOccupants_def replicate_app_Cons_same)

lemma map_of_pushes:
  "map_of (pushes sids c secs) k = map_option (addOccupants (count_list sids k) c) (map_of secs k)"
proof (induction sids arbitrary: secs)
  case Nil
  show ?case by (cases "map_of secs k") (simp_all add: pushes_def addOccupants_0)
next
  case (Cons sid sids)
  have "pushes (sid # sids) c secs = pushes sids c (pushStudent sid c secs)"
    by (simp add: pushes_def)
  then show ?case using Cons.IH[of "pushStudent sid c secs"]
    by (cases "map_of secs k") (auto simp: map_of_pushStudent addOccupants_Suc)
qed

lemma commitAssignment_pushes: "commitAssignment code best secs = pushes (map snd best) code secs"
  by (simp add: commitAssignment_def pushes_def)

lemma count_list_distinct: "distinct xs \<Longrightarrow> count_list xs x = (if x \<in> set xs then 1 else 0)"
  by (induction xs) auto

lemma placeStudent_pushes:
  "placeStudent c ids secs = Inr secs' \<Longrightarrow> secs' = pushes ids c secs"
proof (induction ids arbitrary: secs)
  case Nil
  then show ?case by (simp add: pushes_def)
next
  case (Cons sid ids)
  then show ?case by (auto simp: pushes_def split: option.splits if_splits)
qed

lemma placeStudent_exists:
  "placeStudent c ids secs = Inr secs' \<Longrightarrow> sid \<in> set ids \<Longrightarrow> map_of secs sid \<noteq> None"
proof (induction ids arbitrary: secs)
  case Nil
  then show ?case by simp
next
  case (Cons i ids)
  from Cons.prems(1) obtain sec where s: "map_of secs i = Some sec" "\<not> isFull sec"
    and r: "placeStudent c ids (pushStudent i c secs) = Inr secs'"
    by (auto split: option.splits if_splits)
  show ?case
  proof (cases "sid = i")
    case True
    with s show ?thesis by simp
  next
    case False
    with Cons.prems(2) have "sid \<in> set ids" by simp
    from Cons.IH[OF r this] False show ?thesis by (simp add: map_of_pushStudent)
  qed
qed

lemma in_map_entry:
  "(k', v') \<in> set (AList.map_entry k f xs) \<Longrightarrow>
     (k', v') \<in> set xs \<or> (k' = k \<and> (\<exists>v. (k, v) \<in> set xs \<and> v' = f v))"
  by (induction xs) (auto split: if_splits)

lemma match_pushStudent:
  "sectionsMatchConfig cfg secs \<Longrightarrow> sectionsMatchConfig cfg (pushStudent sid c secs)"
  unfolding sectionsMatchConfig_def pushStudent_def
  by (auto dest!: in_map_entry split: option.splits)

lemma wf_pushStudent: "wfSections cfg secs \<Longrightarrow> wfSections cfg (pushStudent sid c secs)"
  by (simp add: wfSections_def keys_pushStudent match_pushStudent)

lemma wf_pushes: "wfSections cfg secs \<Longrightarrow> wfSections cfg (pushes sids c secs)"
  unfolding pushes_def by (induction sids arbitrary: secs) (simp_all add: wf_pushStudent)

lemma in_update:
  "(k', v') \<in> set (AList.update k v xs) \<Longrightarrow> (k', v') = (k, v) \<or> (k', v') \<in> set xs"
  by (induction xs) (auto split: if_splits)

lemma addSubjectSections_fresh:
  "\<forall>e \<in> set secs. freshSection cfg e \<Longrightarrow> \<forall>e \<in> set (addSubjectSections cfg subject secs). freshSection cfg e"
  unfolding addSubjectSections_def
  by (cases "cfg (subj_id subject)")
     (auto dest!: in_update simp: freshSection_def newSection_def)

lemma addSubjectSections_distinct:
  "distinct (map fst secs) \<Longrightarrow> distinct (map fst (addSubjectSections cfg subject secs))"
  unfolding addSubjectSections_def
  by (cases "cfg (subj_id subject)") (simp_all add: distinct_update)

lemma fold_addSubjectSections:
  "(\<forall>e \<in> set secs. freshSection cfg e) \<and> distinct (map fst secs) \<Longrightarrow>
   (\<forall>e \<in> set (fold (addSubjectSections cfg) subs secs). freshSection cfg e) \<and>
   distinct (map fst (fold (addSubjectSections cfg) subs secs))"
proof (induction subs arbitrary: secs)
  case Nil
  then show ?case by simp
next
  case (Cons s subs)
  show ?case using Cons.prems
    by (simp only: fold_simps) (intro Cons.IH conjI addSubjectSections_fresh
        addSubjectSections_distinct, simp_all)
qed

lemma buildSections_fresh:
  "(\<forall>e \<in> set (buildSections subs cfg). freshSection cfg e) \<and> distinct (map fst (buildSections subs cfg))"
  unfolding buildSections_def by (rule fold_addSubjectSections) simp

lemma buildSections_wf: "wfSections cfg (buildSections subs cfg)"
  using buildSections_fresh[of subs cfg]
  by (fastforce simp: wfSections_def sectionsMatchConfig_def freshSection_def split: option.splits)

lemma buildSections_empty:
  "(sid, sec) \<in> set (buildSections subs cfg) \<Longrightarrow> students sec = []"
  using buildSections_fresh[of subs cfg] by (auto simp: freshSection_def)

lemma map_entry_map:
  "distinct (map fst xs) \<Longrightarrow>
   AList.map_entry k f xs = map (\<lambda>(k', v). (k', if k' = k then f v else v)) xs"
proof (induction xs)
  case Nil
  then show ?case by simp
next
  case (Cons p xs)
  obtain k1 v1 where p: "p = (k1, v1)" by (cases p)
  show ?case
  proof (cases "k1 = k")
    case True
    with Cons.prems p have "k \<notin> fst ` set xs" by auto
    then have "map (\<lambda>(k', v). (k', if k' = k then f v else v)) xs = xs"
      by (induction xs) auto
    with True p show ?thesis by simp
  next
    case False
    with Cons p show ?thesis by simp
  qed
qed

lemma pushStudent_map:
  "distinct (map fst secs) \<Longrightarrow>
   pushStudent sid c secs =
     map (\<lambda>(k, sec). (k, addOccupants (if k = sid then Suc 0 else 0) c sec)) secs"
  by (auto simp: pushStudent_def map_entry_map addOccupants_def)

lemma addOccupants_add: "addOccupants n c (addOccupants m c sec) = addOccupants (m + n) c sec"
  by (simp add: addOccupants_def replicate_add)

lemma pushes_map:
  "distinct (map fst secs) \<Longrightarrow>
   pushes sids c secs = map (\<lambda>(k, sec). (k, addOccupants (count_list sids k) c sec)) secs"
proof (induction sids arbitrary: secs)
  case Nil
  then show ?case by (simp add: pushes_def addOccupants_0)
next
  case (Cons sid sids)
  have e: "pushes (sid # sids) c secs = pushes sids c (pushStudent sid c secs)"
    by (simp add: pushes_def)
  have d: "distinct (map fst (pushStudent sid c secs))"
    using Cons.prems by (simp add: keys_pushStudent)
  have "map (\<lambda>(k, sec). (k, addOccupants (count_list sids k) c sec))
          (map (\<lambda>(k, sec). (k, addOccupants (if k = sid then Suc 0 else 0) c sec)) secs) =
        map (\<lambda>(k, sec). (k, addOccupants (count_list (sid # sids) k) c sec)) secs"
    by (auto simp: addOccupants_add)
  moreover have "pushes sids c (pushStudent sid c secs) =
      map (\<lambda>(k, sec). (k, addOccupants (count_list sids k) c sec)) (pushStudent sid c secs)"
    by (rule Cons.IH[OF d])
  moreover have "pushStudent sid c secs =
      map (\<lambda>(k, sec). (k, addOccupants (if k = sid then Suc 0 else 0) c sec)) secs"
    by (rule pushStudent_map[OF Cons.prems])
  ultimately show ?case using e by simp
qed

lemma students_addOccupants:
  "set (students (addOccupants n c sec)) = set (students sec) \<union> (if n = 0 then {} else {c})"
  by (cases n) (auto simp: addOccupants_def)

lemma occupants_pushes:
  "distinct (map fst secs) \<Longrightarrow> occupants (pushes sids c secs) \<subseteq> occupants secs \<union> {c}"
  unfolding pushes_map occupants_def
  by (auto simp: students_addOccupants split: if_splits)

section \<open>The loop body either leaves the sections or commits a feasible combination\<close>

lemma selectLoop_mem:
  "selectLoop costOf rest best minCost = Inr b \<Longrightarrow> b = best \<or> b \<in> set rest"
proof (induction rest arbitrary: best minCost)
  case Nil
  then show ?case by simp
next
  case (Cons a rest)
  then show ?case by (fastforce split: sum.splits if_splits)
qed

lemma selectBest_mem: "selectBest costOf xs = Inr b \<Longrightarrow> b \<in> set xs"
  by (cases xs) (auto simp: selectBest_def split: sum.splits dest: selectLoop_mem)

lemma processStudent_cases:
  assumes wf: "sectionsMatchConfig cfg (run_sections st)"
    and step: "processStudent enrollments names prefs cm subjectsConfig cfg strategy c st = Inr st'"
  shows "run_sections st' = run_sections st \<or>
         (\<exists>subs best. feasible (run_sections st) (set (conflictsOf cm c)) subs best \<and>
            run_sections st' = commitAssignment c best (run_sections st))"
proof -
  define subs where "subs = resolveSubjects subjectsConfig
      (case map_of enrollments c of None \<Rightarrow> [] | Some s \<Rightarrow> s)"
  define found where "found = findValidAssignments subs c cm (run_sections st) cfg"
  have d: "distinct subs" unfolding subs_def by (rule distinct_resolveSubjects)
  show ?thesis
  proof (cases "subs = [] \<or> found = []")
    case True
    with step show ?thesis
      unfolding processStudent_def subs_def[symmetric] Let_def found_def[symmetric]
      by (auto split: if_splits)
  next
    case False
    with step obtain best where
      b: "selectBest (\<lambda>a. calculateAssignmentCost a (snapshotSizes (run_sections st)) (prefs c) cfg strategy)
            found = Inr best"
      and s: "run_sections st' = commitAssignment c best (run_sections st)"
      unfolding processStudent_def subs_def[symmetric] Let_def found_def[symmetric]
      by (auto split: if_splits sum.splits)
    from selectBest_mem[OF b] have "best \<in> set found" .
    with search_exact[OF wf d, of c cm] have "feasible (run_sections st) (set (conflictsOf cm c)) subs best"
      by (simp add: found_def)
    with s show ?thesis by blast
  qed
qed

lemma scheduleLoop_invariant:
  assumes step: "\<And>c st st'. I st \<Longrightarrow> body c st = Inr st' \<Longrightarrow> I st'"
    and init: "I st" and run: "scheduleLoop body cs st = Inr st'"
  shows "I st'"
  using init run
proof (induction cs arbitrary: st)
  case Nil
  then show ?case by simp
next
  case (Cons c cs)
  from Cons.prems(2) obtain st1 where b: "body c st = Inr st1"
    and r: "scheduleLoop body cs st1 = Inr st'"
    by (auto split: sum.splits)
  from step[OF Cons.prems(1) b] have "I st1" .
  from Cons.IH[OF this r] show ?case .
qed

lemma scheduleLoop_take:
  "scheduleLoop body cs st = Inr st' \<Longrightarrow> \<exists>st''. scheduleLoop body (take k cs) st = Inr st''"
proof (induction cs arbitrary: st k)
  case Nil
  then show ?case by simp
next
  case (Cons c cs)
  then show ?case by (cases k) (auto split: sum.splits)
qed

section \<open>The commit makes the student an occupant of the chosen sections\<close>

lemma enum_shape:
  "a \<in> set (enumAssignments cfg secs confl used subs) \<Longrightarrow>
   map fst a = subs \<and>
   (\<forall>(s, sid) \<in> set a.
      (sid = sectionIdOf s ''1'' \<or> sid = sectionIdOf s ''2'') \<and> map_of secs sid \<noteq> None)"
proof (induction subs arbitrary: a used)
  case Nil
  then show ?case by simp
next
  case (Cons s rest)
  from Cons.prems obtain config where c: "cfg s = Some config"
    by (cases "cfg s") auto
  from Cons.prems c obtain suf a' where suf: "suf = ''1'' \<or> suf = ''2''"
    and a: "a = (s, sectionIdOf s suf) # a'"
    and ex: "map_of secs (sectionIdOf s suf) \<noteq> None"
    and r: "\<exists>u. a' \<in> set (enumAssignments cfg secs confl u rest)"
    by (auto simp: slotOpen_def split: if_splits option.splits)
  from r obtain u where "a' \<in> set (enumAssignments cfg secs confl u rest)" by blast
  from Cons.IH[OF this] a suf ex show ?case by auto
qed

lemma slot_ids_distinct:
  "distinct (map fst a) \<Longrightarrow>
   \<forall>(s, sid) \<in> set a. sid = sectionIdOf s ''1'' \<or> sid = sectionIdOf s ''2'' \<Longrightarrow>
   distinct (map snd a)"
proof (induction a)
  case Nil
  then show ?case by simp
next
  case (Cons e a)
  obtain s sid where e: "e = (s, sid)" by (cases e)
  have "sid \<notin> snd ` set a"
  proof
    assume "sid \<in> snd ` set a"
    then obtain t where t: "(t, sid) \<in> set a" by auto
    from Cons.prems(2) e have es: "sid = sectionIdOf s ''1'' \<or> sid = sectionIdOf s ''2''"
      by simp
    from Cons.prems(2) t have ts: "sid = sectionIdOf t ''1'' \<or> sid = sectionIdOf t ''2''"
      by auto
    have "s = t"
    proof (rule disjE[OF es]; rule disjE[OF ts])
      assume "sid = sectionIdOf s ''1''" "sid = sectionIdOf t ''1''"
      with sectionIdOf_inj[of s "''1''" t "''1''"] show ?thesis by simp
    next
      assume "sid = sectionIdOf s ''1''" "sid = sectionIdOf t ''2''"
      with sectionIdOf_slots_neq[of s t] show ?thesis by simp
    next
      assume "sid = sectionIdOf s ''2''" "sid = sectionIdOf t ''1''"
      with sectionIdOf_slots_neq[of t s] show ?thesis by simp
    next
      assume "sid = sectionIdOf s ''2''" "sid = sectionIdOf t ''2''"
      with sectionIdOf_inj[of s "''2''" t "''2''"] show ?thesis by simp
    qed
    with t Cons.prems(1) e show False by (auto simp: image_iff)
  qed
  with Cons e show ?case by simp
qed

lemma pushes_lookup:
  assumes "distinct sids"
  shows "map_of (pushes sids code secs) k =
     map_option (\<lambda>sec. if k \<in> set sids then sec\<lparr>students := students sec @ [code]\<rparr> else sec)
       (map_of secs k)"
  using assms
  by (cases "map_of secs k")
     (simp_all add: map_of_pushes count_list_distinct addOccupants_def)

lemma pushes_join:
  assumes d: "distinct subs" and m: "best \<in> set (findValidAssignments subs code cm secs cfg)"
  shows "(\<forall>(subjId, sectionId) \<in> set best.
            \<exists>sec. map_of secs sectionId = Some sec \<and>
              map_of (pushes (map snd best) code secs) sectionId =
                Some (sec\<lparr>students := students sec @ [code]\<rparr>)) \<and>
         (\<forall>sectionId. sectionId \<notin> snd ` set best \<longrightarrow>
            map_of (pushes (map snd best) code secs) sectionId = map_of secs sectionId) \<and>
         map fst (pushes (map snd best) code secs) = map fst secs"
proof -
  from m d have "best \<in> set (enumAssignments cfg secs (conflictsOf cm code) {} subs)"
    by (simp add: findValidAssignments_enum)
  from enum_shape[OF this] have k: "map fst best = subs"
    and sh: "\<forall>(s, sid) \<in> set best.
      (sid = sectionIdOf s ''1'' \<or> sid = sectionIdOf s ''2'') \<and> map_of secs sid \<noteq> None"
    by simp_all
  from sh have "\<forall>(s, sid) \<in> set best. sid = sectionIdOf s ''1'' \<or> sid = sectionIdOf s ''2''"
    by auto
  with d k have ds: "distinct (map snd best)" by (intro slot_ids_distinct) simp_all
  have "\<forall>(subjId, sectionId) \<in> set best.
            \<exists>sec. map_of secs sectionId = Some sec \<and>
              map_of (pushes (map snd best) code secs) sectionId =
                Some (sec\<lparr>students := students sec @ [code]\<rparr>)"
  proof (intro ballI, clarify)
    fix s sid assume e: "(s, sid) \<in> set best"
    with sh obtain sec where sec: "map_of secs sid = Some sec" by auto
    from e have "sid \<in> snd ` set best" by force
    with sec show "\<exists>sec. map_of secs sid = Some sec \<and>
              map_of (pushes (map snd best) code secs) sid =
                Some (sec\<lparr>students := students sec @ [code]\<rparr>)"
      by (simp add: pushes_lookup[OF ds])
  qed
  moreover have "\<forall>sectionId. sectionId \<notin> snd ` set best \<longrightarrow>
            map_of (pushes (map snd best) code secs) sectionId = map_of secs sectionId"
  proof (intro allI impI)
    fix sectionId assume "sectionId \<notin> snd ` set best"
    then show "map_of (pushes (map snd best) code secs) sectionId = map_of secs sectionId"
      by (cases "map_of secs sectionId") (simp_all add: pushes_lookup[OF ds])
  qed
  moreover have "map fst (pushes (map snd best) code secs) = map fst secs"
    by (simp add: keys_pushes)
  ultimately show ?thesis by blast
qed

lemma commit_example_subjects:
  "resolveSubjects exampleSubjects
     (case map_of [(''A'', [''ALGEBRA'', ''BIOLOGIA''])] ''A'' of None \<Rightarrow> [] | Some s \<Rightarrow> s) = [1, 2]"
  by (simp add: resolveSubjects_def exampleSubjects_def List.map_filter_def setAdd_def)

lemma commit_example_search:
  "findValidAssignments [1, 2] ''A'' [] (pushStudent ''2.2'' ''Z'' exampleSections) exampleConfig =
     [[(1, ''1.1''), (2, ''2.2'')], [(1, ''1.2''), (2, ''2.1'')], [(1, ''1.2''), (2, ''2.2'')]]"
  by (simp add: exampleSections_def exampleSection_def findValidAssignments_def
      processSection_def exampleConfig_def example_sectionIds conflictsOf_def isFull_def
      hasConflict_def Let_def pushStudent_def)

lemma commit_example_costs:
  "map (costValue (\<lambda>a. calculateAssignmentCost a
          (snapshotSizes (pushStudent ''2.2'' ''Z'' exampleSections)) None exampleConfig speed))
     [[(1, ''1.1''), (2, ''2.2'')], [(1, ''1.2''), (2, ''2.1'')], [(1, ''1.2''), (2, ''2.2'')]] =
   [1, 0, 1]"
  by (simp add: costValue_def calculateAssignmentCost_def baseCost_def sizeOrZero_def
      snapshotSizes_def exampleSections_def exampleSection_def pushStudent_def)

lemma commit_example_select:
  "selectBest (\<lambda>a. calculateAssignmentCost a
          (snapshotSizes (pushStudent ''2.2'' ''Z'' exampleSections)) None exampleConfig speed)
     [[(1, ''1.1''), (2, ''2.2'')], [(1, ''1.2''), (2, ''2.1'')], [(1, ''1.2''), (2, ''2.2'')]] =
   Inr [(1, ''1.2''), (2, ''2.1'')]"
  by (simp add: selectBest_def calculateAssignmentCost_def baseCost_def sizeOrZero_def
      snapshotSizes_def exampleSections_def exampleSection_def pushStudent_def)

text \<open>
  C7. Whenever the search finds at least one combination for a student, the loop body
  commits one of them: the first element, in the order in which the search found them,
  whose cost against the snapshot of the section sizes taken before scoring is minimal.
  Committing it appends the student to the occupants of each section of that combination
  and leaves every other section, the set of sections and the list of unassigned
  students as they were. Every candidate has a cost, and for the duplicate-free subject
  list of the engine the search order is the backtracking order (subjects in list
  order, slot 1 before slot 2).
\<close>

theorem commits_first_minimum:
  assumes "found = findValidAssignments
             (resolveSubjects subjectsConfig
                (case map_of enrollments studentCode of None \<Rightarrow> [] | Some s \<Rightarrow> s))
             studentCode conflictMap (run_sections st) scheduleConfig"
    and "found \<noteq> []"
  shows "\<exists>i st'. processStudent enrollments studentCodeToName studentPreferences conflictMap
            subjectsConfig scheduleConfig balancingStrategy studentCode st = Inr st' \<and>
          run_sections st' = commitAssignment studentCode (found ! i) (run_sections st) \<and>
          (\<forall>(subjId, sectionId) \<in> set (found ! i).
             \<exists>sec. map_of (run_sections st) sectionId = Some sec \<and>
               map_of (run_sections st') sectionId =
                 Some (sec\<lparr>students := students sec @ [studentCode]\<rparr>)) \<and>
          (\<forall>sectionId. sectionId \<notin> snd ` set (found ! i) \<longrightarrow>
             map_of (run_sections st') sectionId = map_of (run_sections st) sectionId) \<and>
          map fst (run_sections st') = map fst (run_sections st) \<and>
          run_unassignedStudents st' = run_unassignedStudents st \<and>
          firstMinimum
            (costValue (\<lambda>a. calculateAssignmentCost a (snapshotSizes (run_sections st))
               (studentPreferences studentCode) scheduleConfig balancingStrategy)) found i \<and>
          (\<forall>a \<in> set found. \<exists>c. calculateAssignmentCost a (snapshotSizes (run_sections st))
               (studentPreferences studentCode) scheduleConfig balancingStrategy = Inr c) \<and>
          found = enumAssignments scheduleConfig (run_sections st)
                    (conflictsOf conflictMap studentCode) {}
                    (resolveSubjects subjectsConfig
                       (case map_of enrollments studentCode of None \<Rightarrow> [] | Some s \<Rightarrow> s))"
proof -
  from processStudent_commits[OF assms(2)[unfolded assms(1)],
      where studentCodeToName = studentCodeToName and studentPreferences = studentPreferences
        and balancingStrategy = balancingStrategy, folded assms(1)]
  obtain i st' where p: "processStudent enrollments studentCodeToName studentPreferences conflictMap
            subjectsConfig scheduleConfig balancingStrategy studentCode st = Inr st'"
    and c: "run_sections st' = commitAssignment studentCode (found ! i) (run_sections st)"
    and u: "run_unassignedStudents st' = run_unassignedStudents st"
    and f: "firstMinimum
            (costValue (\<lambda>a. calculateAssignmentCost a (snapshotSizes (run_sections st))
               (studentPreferences studentCode) scheduleConfig balancingStrategy)) found i"
    by blast
  from f have "found ! i \<in> set found" by (simp add: firstMinimum_def)
  then have m: "found ! i \<in> set (findValidAssignments
             (resolveSubjects subjectsConfig
                (case map_of enrollments studentCode of None \<Rightarrow> [] | Some s \<Rightarrow> s))
             studentCode conflictMap (run_sections st) scheduleConfig)"
    using assms(1) by simp
  have "commitAssignment studentCode (found ! i) (run_sections st) =
      pushes (map snd (found ! i)) studentCode (run_sections st)"
    by (simp add: commitAssignment_def pushes_def)
  with c have c': "pushes (map snd (found ! i)) studentCode (run_sections st) = run_sections st'"
    by simp
  note j = pushes_join[OF distinct_resolveSubjects m, unfolded c']
  have costs: "\<forall>a \<in> set found. \<exists>c. calculateAssignmentCost a (snapshotSizes (run_sections st))
               (studentPreferences studentCode) scheduleConfig balancingStrategy = Inr c"
    unfolding assms(1) using search_configured by blast
  have order: "found = enumAssignments scheduleConfig (run_sections st)
                    (conflictsOf conflictMap studentCode) {}
                    (resolveSubjects subjectsConfig
                       (case map_of enrollments studentCode of None \<Rightarrow> [] | Some s \<Rightarrow> s))"
    unfolding assms(1) by (rule findValidAssignments_enum) (rule distinct_resolveSubjects)
  from p c j u f costs order show ?thesis by blast
qed

theorem commits_first_minimum_witness:
  "findValidAssignments
     (resolveSubjects exampleSubjects
        (case map_of [(''A'', [''ALGEBRA'', ''BIOLOGIA''])] ''A'' of None \<Rightarrow> [] | Some s \<Rightarrow> s))
     ''A'' [] (pushStudent ''2.2'' ''Z'' exampleSections) exampleConfig =
     [[(1, ''1.1''), (2, ''2.2'')], [(1, ''1.2''), (2, ''2.1'')], [(1, ''1.2''), (2, ''2.2'')]] \<and>
   map (costValue (\<lambda>a. calculateAssignmentCost a
          (snapshotSizes (pushStudent ''2.2'' ''Z'' exampleSections)) None exampleConfig speed))
     [[(1, ''1.1''), (2, ''2.2'')], [(1, ''1.2''), (2, ''2.1'')], [(1, ''1.2''), (2, ''2.2'')]] =
     [1, 0, 1] \<and>
   processStudent [(''A'', [''ALGEBRA'', ''BIOLOGIA''])] Map.empty Map.empty []
     exampleSubjects exampleConfig speed ''A''
     \<lparr>run_sections = pushStudent ''2.2'' ''Z'' exampleSections,
      run_unassignedStudents = [], run_combinationsChecked = 0\<rparr> =
   Inr \<lparr>run_sections =
          [(''1.1'', exampleSection ''1.1'' 1 ''ALGEBRA'' 1 [] 1),
           (''1.2'', exampleSection ''1.2'' 1 ''ALGEBRA'' 2 [''A''] 1),
           (''2.1'', exampleSection ''2.1'' 2 ''BIOLOGIA'' 1 [''A''] 2),
           (''2.2'', exampleSection ''2.2'' 2 ''BIOLOGIA'' 3 [''Z''] 2),
           (''3.1'', exampleSection ''3.1'' 3 ''CIVICA'' 1 [] 1),
           (''3.2'', exampleSection ''3.2'' 3 ''CIVICA'' 2 [] 1)],
        run_unassignedStudents = [], run_combinationsChecked = 3\<rparr> \<and>
   (\<exists>i st'. processStudent [(''A'', [''ALGEBRA'', ''BIOLOGIA''])] Map.empty Map.empty []
            exampleSubjects exampleConfig speed ''A''
            \<lparr>run_sections = pushStudent ''2.2'' ''Z'' exampleSections,
             run_unassignedStudents = [], run_combinationsChecked = 0\<rparr> = Inr st' \<and>
          (\<forall>(subjId, sectionId) \<in>
              set ([[(1, ''1.1''), (2, ''2.2'')], [(1, ''1.2''), (2, ''2.1'')],
                    [(1 :: int, ''1.2''), (2, ''2.2'')]] ! i).
             \<exists>sec. map_of (pushStudent ''2.2'' ''Z'' exampleSections) sectionId = Some sec \<and>
               map_of (run_sections st') sectionId =
                 Some (sec\<lparr>students := students sec @ [''A'']\<rparr>)) \<and>
          firstMinimum
            (costValue (\<lambda>a. calculateAssignmentCost a
               (snapshotSizes (pushStudent ''2.2'' ''Z'' exampleSections)) None exampleConfig speed))
            [[(1, ''1.1''), (2, ''2.2'')], [(1, ''1.2''), (2, ''2.1'')], [(1, ''1.2''), (2, ''2.2'')]] i)"
proof -
  let ?st = "\<lparr>run_sections = pushStudent ''2.2'' ''Z'' exampleSections,
             run_unassignedStudents = [], run_combinationsChecked = 0\<rparr>"
  let ?found = "[[(1, ''1.1''), (2, ''2.2'')], [(1, ''1.2''), (2, ''2.1'')], [(1::int, ''1.2''), (2, ''2.2'')]]"
  have s: "findValidAssignments
     (resolveSubjects exampleSubjects
        (case map_of [(''A'', [''ALGEBRA'', ''BIOLOGIA''])] ''A'' of None \<Rightarrow> [] | Some s \<Rightarrow> s))
     ''A'' [] (pushStudent ''2.2'' ''Z'' exampleSections) exampleConfig = ?found"
    unfolding commit_example_subjects by (rule commit_example_search)
  then have f: "?found = findValidAssignments
     (resolveSubjects exampleSubjects
        (case map_of [(''A'', [''ALGEBRA'', ''BIOLOGIA''])] ''A'' of None \<Rightarrow> [] | Some s \<Rightarrow> s))
     ''A'' [] (run_sections ?st) exampleConfig"
    by simp
  have ne: "?found \<noteq> []" by simp
  have commit_example_step:
    "processStudent [(''A'', [''ALGEBRA'', ''BIOLOGIA''])] Map.empty Map.empty []
         exampleSubjects exampleConfig speed ''A''
         \<lparr>run_sections = pushStudent ''2.2'' ''Z'' exampleSections,
          run_unassignedStudents = [], run_combinationsChecked = 0\<rparr> =
       Inr \<lparr>run_sections =
              [(''1.1'', exampleSection ''1.1'' 1 ''ALGEBRA'' 1 [] 1),
               (''1.2'', exampleSection ''1.2'' 1 ''ALGEBRA'' 2 [''A''] 1),
               (''2.1'', exampleSection ''2.1'' 2 ''BIOLOGIA'' 1 [''A''] 2),
               (''2.2'', exampleSection ''2.2'' 2 ''BIOLOGIA'' 3 [''Z''] 2),
               (''3.1'', exampleSection ''3.1'' 3 ''CIVICA'' 1 [] 1),
               (''3.2'', exampleSection ''3.2'' 3 ''CIVICA'' 2 [] 1)],
            run_unassignedStudents = [], run_combinationsChecked = 3\<rparr>"
  proof -
    have c: "commitAssignment ''A'' [(1, ''1.2''), (2, ''2.1'')]
        (pushStudent ''2.2'' ''Z'' exampleSections) =
            [(''1.1'', exampleSection ''1.1'' 1 ''ALGEBRA'' 1 [] 1),
             (''1.2'', exampleSection ''1.2'' 1 ''ALGEBRA'' 2 [''A''] 1),
             (''2.1'', exampleSection ''2.1'' 2 ''BIOLOGIA'' 1 [''A''] 2),
             (''2.2'', exampleSection ''2.2'' 2 ''BIOLOGIA'' 3 [''Z''] 2),
             (''3.1'', exampleSection ''3.1'' 3 ''CIVICA'' 1 [] 1),
             (''3.2'', exampleSection ''3.2'' 3 ''CIVICA'' 2 [] 1)]"
      by (simp add: commitAssignment_def exampleSections_def exampleSection_def pushStudent_def)
    show ?thesis
      using commit_example_subjects
      by (simp add: processStudent_def commit_example_search commit_example_select c)
  qed
  from commits_first_minimum[OF f ne, of Map.empty Map.empty speed]
  obtain i st' where "processStudent [(''A'', [''ALGEBRA'', ''BIOLOGIA''])] Map.empty Map.empty []
            exampleSubjects exampleConfig speed ''A'' ?st = Inr st'"
     "\<forall>(subjId, sectionId) \<in> set (?found ! i).
             \<exists>sec. map_of (pushStudent ''2.2'' ''Z'' exampleSections) sectionId = Some sec \<and>
               map_of (run_sections st') sectionId =
                 Some (sec\<lparr>students := students sec @ [''A'']\<rparr>)"
     "firstMinimum
            (costValue (\<lambda>a. calculateAssignmentCost a
               (snapshotSizes (pushStudent ''2.2'' ''Z'' exampleSections)) None exampleConfig speed))
            ?found i"
    by auto
  then have ex: "\<exists>i st'. processStudent [(''A'', [''ALGEBRA'', ''BIOLOGIA''])] Map.empty Map.empty []
            exampleSubjects exampleConfig speed ''A'' ?st = Inr st' \<and>
     (\<forall>(subjId, sectionId) \<in> set (?found ! i).
             \<exists>sec. map_of (pushStudent ''2.2'' ''Z'' exampleSections) sectionId = Some sec \<and>
               map_of (run_sections st') sectionId =
                 Some (sec\<lparr>students := students sec @ [''A'']\<rparr>)) \<and>
     firstMinimum
            (costValue (\<lambda>a. calculateAssignmentCost a
               (snapshotSizes (pushStudent ''2.2'' ''Z'' exampleSections)) None exampleConfig speed))
            ?found i"
    by blast
  show ?thesis
    by (rule conjI[OF s conjI[OF commit_example_costs conjI[OF commit_example_step ex]]])
qed

section \<open>Capacity is respected\<close>

lemma buildSections_capacity:
  "capacityNonNegative subs cfg \<Longrightarrow> capacityRespected (buildSections subs cfg)"
  using buildSections_empty[of _ _ subs cfg]
  by (fastforce simp: capacityRespected_def capacityNonNegative_def)

lemma feasible_sids_distinct: "feasible secs confl subs best \<Longrightarrow> distinct (map snd best)"
proof -
  assume "feasible secs confl subs best"
  then have "distinct (map (chosenBlock secs) best)" by (simp add: feasible_def)
  moreover have "map (chosenBlock secs) best =
      map (\<lambda>sid. map_option block (map_of secs sid)) (map snd best)"
    by (simp add: chosenBlock_def comp_def)
  ultimately show ?thesis by (metis distinct_map)
qed

lemma capacity_pushes:
  assumes wf: "wfSections cfg secs" and cap: "capacityRespected secs"
    and d: "distinct sids"
    and room: "\<forall>sid \<in> set sids. \<forall>sec. map_of secs sid = Some sec \<longrightarrow> \<not> isFull sec"
  shows "capacityRespected (pushes sids c secs)"
  unfolding capacityRespected_def
proof (intro ballI, clarify)
  fix sid sec' assume "(sid, sec') \<in> set (pushes sids c secs)"
  moreover have dk: "distinct (map fst (pushes sids c secs))"
    using wf by (simp add: keys_pushes wfSections_def)
  ultimately have "map_of (pushes sids c secs) sid = Some sec'" by simp
  then obtain sec where sec: "map_of secs sid = Some sec"
    and sec': "sec' = addOccupants (count_list sids sid) c sec"
    by (auto simp: map_of_pushes)
  from sec have "(sid, sec) \<in> set secs" by (rule map_of_SomeD)
  with cap have le: "int (length (students sec)) \<le> capacity sec"
    by (auto simp: capacityRespected_def)
  show "int (length (students sec')) \<le> capacity sec'"
  proof (cases "sid \<in> set sids")
    case True
    with room sec have "\<not> isFull sec" by blast
    with True d sec' show ?thesis
      by (simp add: count_list_distinct addOccupants_def isFull_def)
  next
    case False
    with d sec' le show ?thesis by (simp add: count_list_distinct addOccupants_def)
  qed
qed

lemma capacity_commit:
  assumes wf: "wfSections cfg secs" and cap: "capacityRespected secs"
    and f: "feasible secs confl subs best"
  shows "capacityRespected (commitAssignment c best secs)"
  unfolding commitAssignment_pushes
proof (rule capacity_pushes[OF wf cap feasible_sids_distinct[OF f]], intro ballI allI impI)
  fix sid sec assume "sid \<in> set (map snd best)" and s: "map_of secs sid = Some sec"
  then obtain subj where "(subj, sid) \<in> set best" by auto
  with f s show "\<not> isFull sec" by (fastforce simp: feasible_def isFull_def)
qed

lemma capacity_pushStudent:
  assumes wf: "wfSections cfg secs" and cap: "capacityRespected secs"
    and s: "map_of secs sid = Some sec" and r: "\<not> isFull sec"
  shows "capacityRespected (pushStudent sid c secs)"
proof -
  have "pushStudent sid c secs = pushes [sid] c secs" by (simp add: pushes_def)
  moreover have "capacityRespected (pushes [sid] c secs)"
    by (rule capacity_pushes[OF wf cap]) (use s r in auto)
  ultimately show ?thesis by simp
qed

lemma placeStudent_sound:
  "sound cfg secs \<Longrightarrow> placeStudent c ids secs = Inr secs' \<Longrightarrow> sound cfg secs'"
proof (induction ids arbitrary: secs)
  case Nil
  then show ?case by simp
next
  case (Cons sid ids)
  from Cons.prems(2) obtain sec where s: "map_of secs sid = Some sec" "\<not> isFull sec"
    and r: "placeStudent c ids (pushStudent sid c secs) = Inr secs'"
    by (auto split: option.splits if_splits)
  from Cons.prems(1) s have "sound cfg (pushStudent sid c secs)"
    by (auto simp: sound_def wf_pushStudent intro: capacity_pushStudent)
  from Cons.IH[OF this r] show ?case .
qed

lemma placePreassigned_sound:
  "sound cfg secs \<Longrightarrow> placePreassigned pre secs = Inr secs' \<Longrightarrow> sound cfg secs'"
proof (induction pre arbitrary: secs)
  case Nil
  then show ?case by simp
next
  case (Cons p pre)
  obtain c ids where p: "p = (c, ids)" by (cases p)
  from Cons.prems(2) p obtain s1 where a: "placeStudent c ids secs = Inr s1"
    and b: "placePreassigned pre s1 = Inr secs'"
    by (auto split: sum.splits)
  from Cons.IH[OF placeStudent_sound[OF Cons.prems(1) a] b] show ?case .
qed

lemma processStudent_sound:
  assumes "sound cfg (run_sections st)"
    and "processStudent enrollments names prefs cm subjectsConfig cfg strategy c st = Inr st'"
  shows "sound cfg (run_sections st')"
proof -
  from assms(1) have m: "sectionsMatchConfig cfg (run_sections st)"
    by (simp add: sound_def wfSections_def)
  from processStudent_cases[OF m assms(2)] assms(1) show ?thesis
    by (auto simp: sound_def commitAssignment_pushes wf_pushes
        intro: capacity_commit[unfolded commitAssignment_pushes])
qed

lemma buildSections_sound: "capacityNonNegative subs cfg \<Longrightarrow> sound cfg (buildSections subs cfg)"
  by (simp add: sound_def buildSections_wf buildSections_capacity)

section \<open>Conflicting students never share a section\<close>

lemma conflictFree_pushes:
  assumes dk: "distinct (map fst secs)" and cf: "conflictFree pairs secs"
    and ok: "\<forall>sid \<in> set sids. \<forall>sec. map_of secs sid = Some sec \<longrightarrow>
               (\<forall>y \<in> set (students sec). y \<noteq> c \<longrightarrow> y \<notin> conflictSet pairs c)"
  shows "conflictFree pairs (pushes sids c secs)"
  unfolding conflictFree_def pushes_map[OF dk]
proof (intro ballI, clarify)
  fix sid sec' x y
  assume e: "(sid, sec') \<in> set (map (\<lambda>(k, sec). (k, addOccupants (count_list sids k) c sec)) secs)"
    and x: "x \<in> set (students sec')" and y: "y \<in> set (students sec')" and ne: "x \<noteq> y"
    and c: "y \<in> conflictSet pairs x"
  from e obtain sec where m: "(sid, sec) \<in> set secs"
    and s: "sec' = addOccupants (count_list sids sid) c sec" by auto
  from m dk have mo: "map_of secs sid = Some sec" by simp
  from cf m have old: "\<forall>x \<in> set (students sec). \<forall>y \<in> set (students sec).
          x \<noteq> y \<longrightarrow> y \<notin> conflictSet pairs x"
    by (auto simp: conflictFree_def)
  show False
  proof (cases "count_list sids sid = 0")
    case True
    with s x y ne c old show False by (simp add: addOccupants_0)
  next
    case False
    then have "sid \<in> set sids" by (simp add: count_list_0_iff)
    with ok mo have k: "\<forall>y \<in> set (students sec). y \<noteq> c \<longrightarrow> y \<notin> conflictSet pairs c" by blast
    from x y s False have xs: "x \<in> set (students sec) \<or> x = c"
      and ys: "y \<in> set (students sec) \<or> y = c"
      by (auto simp: students_addOccupants)
    show False
    proof (cases "x = c")
      case True
      with ne ys have "y \<in> set (students sec)" "y \<noteq> c" by auto
      with k have "y \<notin> conflictSet pairs c" by blast
      with c True show False by simp
    next
      case xc: False
      with xs have xo: "x \<in> set (students sec)" by simp
      show False
      proof (cases "y = c")
        case True
        from k xo xc have "x \<notin> conflictSet pairs c" by blast
        with c True show False using conflictSet_sym[of c pairs x] by simp
      next
        case False
        with ys have "y \<in> set (students sec)" by simp
        with old xo ne c show False by blast
      qed
    qed
  qed
qed

lemma conflictFree_commit:
  assumes wf: "wfSections cfg secs" and cf: "conflictFree pairs secs"
    and f: "feasible secs (set (conflictsOf (buildConflictMap pairs) c)) subs best"
  shows "conflictFree pairs (commitAssignment c best secs)"
  unfolding commitAssignment_pushes
proof (rule conflictFree_pushes[OF _ cf], use wf in \<open>simp add: wfSections_def\<close>,
    intro ballI allI impI)
  fix sid sec y
  assume "sid \<in> set (map snd best)" and s: "map_of secs sid = Some sec"
    and y: "y \<in> set (students sec)"
  then obtain subj where "(subj, sid) \<in> set best" by auto
  with f s y have "y \<notin> set (conflictsOf (buildConflictMap pairs) c)"
    by (fastforce simp: feasible_def)
  then show "y \<notin> conflictSet pairs c" by (simp add: conflictsOf_build)
qed

lemma placeStudent_wf:
  "wfSections cfg secs \<Longrightarrow> placeStudent c ids secs = Inr secs' \<Longrightarrow> wfSections cfg secs'"
  by (auto dest!: placeStudent_pushes simp: wf_pushes)

lemma placePreassigned_wf:
  "wfSections cfg secs \<Longrightarrow> placePreassigned pre secs = Inr secs' \<Longrightarrow> wfSections cfg secs'"
proof (induction pre arbitrary: secs)
  case Nil
  then show ?case by simp
next
  case (Cons p pre)
  obtain c ids where p: "p = (c, ids)" by (cases p)
  from Cons.prems(2) p obtain s1 where a: "placeStudent c ids secs = Inr s1"
    and b: "placePreassigned pre s1 = Inr secs'"
    by (auto split: sum.splits)
  from Cons.IH[OF placeStudent_wf[OF Cons.prems(1) a] b] show ?case .
qed

lemma placePreassigned_provenance:
  assumes "wfSections cfg secs" and "placePreassigned pre secs = Inr secs'"
    and "map_of secs' sid = Some sec'" and "x \<in> set (students sec')"
  shows "(\<exists>sec. map_of secs sid = Some sec \<and> x \<in> set (students sec)) \<or>
         (\<exists>ids. (x, ids) \<in> set pre \<and> sid \<in> set ids)"
  using assms
proof (induction pre arbitrary: secs)
  case Nil
  then show ?case by simp
next
  case (Cons p pre)
  obtain c ids where p: "p = (c, ids)" by (cases p)
  from Cons.prems(2) p obtain s1 where a: "placeStudent c ids secs = Inr s1"
    and b: "placePreassigned pre s1 = Inr secs'"
    by (auto split: sum.splits)
  from placeStudent_pushes[OF a] have s1: "s1 = pushes ids c secs" .
  from Cons.IH[OF placeStudent_wf[OF Cons.prems(1) a] b Cons.prems(3,4)]
  consider (old) sec1 where "map_of s1 sid = Some sec1" "x \<in> set (students sec1)"
    | (new) ids' where "(x, ids') \<in> set pre" "sid \<in> set ids'"
    by blast
  then show ?case
  proof cases
    case old
    from old(1) obtain sec where sec: "map_of secs sid = Some sec"
      and e: "sec1 = addOccupants (count_list ids sid) c sec"
      unfolding s1 by (auto simp: map_of_pushes)
    from old(2) e have "x \<in> set (students sec) \<or> (x = c \<and> count_list ids sid \<noteq> 0)"
      by (auto simp: students_addOccupants split: if_splits)
    then show ?thesis
    proof
      assume "x \<in> set (students sec)"
      with sec show ?thesis by blast
    next
      assume "x = c \<and> count_list ids sid \<noteq> 0"
      then have "x = c" "sid \<in> set ids" by (simp_all add: count_list_0_iff)
      with p show ?thesis by auto
    qed
  next
    case new
    then show ?thesis by auto
  qed
qed

lemma validateStudent_None:
  assumes "validateStudent secs confl c ids = None" and "sid \<in> set ids"
    and "map_of secs sid = Some sec" and "y \<in> set (students sec)" and "y \<noteq> c"
  shows "y \<notin> set confl"
  using assms
proof (induction ids)
  case Nil
  then show ?case by simp
next
  case (Cons i ids)
  show ?case
  proof (cases "sid = i")
    case True
    with Cons.prems have "find (\<lambda>other. c \<noteq> other \<and> other \<in> set confl) (students sec) = None"
      by (auto split: option.splits)
    with Cons.prems(4,5) show ?thesis by (auto simp: find_None_iff)
  next
    case False
    with Cons.prems(2) have m: "sid \<in> set ids" by simp
    from Cons.prems(1) have "validateStudent secs confl c ids = None"
      by (auto split: option.splits)
    from Cons.IH[OF this m Cons.prems(3,4,5)] show ?thesis .
  qed
qed

lemma validatePreassigned_None:
  assumes "validatePreassigned cm secs pre = None" and "(c, ids) \<in> set pre" and "sid \<in> set ids"
    and "map_of secs sid = Some sec" and "y \<in> set (students sec)" and "y \<noteq> c"
  shows "y \<notin> set (conflictsOf cm c)"
  using assms
proof (induction pre)
  case Nil
  then show ?case by simp
next
  case (Cons p pre)
  obtain c1 ids1 where p: "p = (c1, ids1)" by (cases p)
  from Cons.prems(1) p have rest: "validatePreassigned cm secs pre = None"
    by (auto simp: Let_def split: if_splits option.splits)
  show ?case
  proof (cases "(c, ids) = p")
    case True
    with p have e: "c1 = c" "ids1 = ids" by simp_all
    show ?thesis
    proof (cases "conflictsOf cm c = []")
      case True
      then show ?thesis by simp
    next
      case False
      with Cons.prems(1) p e have "validateStudent secs (conflictsOf cm c) c ids = None"
        by (auto simp: Let_def split: option.splits)
      from validateStudent_None[OF this Cons.prems(3,4,5,6)] show ?thesis .
    qed
  next
    case False
    with Cons.prems(2) have "(c, ids) \<in> set pre" by auto
    from Cons.IH[OF rest this Cons.prems(3,4,5,6)] show ?thesis .
  qed
qed

lemma phase1_conflictFree:
  assumes place: "placePreassigned pre (buildSections subs cfg) = Inr secs1"
    and valid: "validatePreassigned (buildConflictMap pairs) secs1 pre = None"
  shows "conflictFree pairs secs1"
  unfolding conflictFree_def
proof (intro ballI, clarify)
  fix sid sec x y
  assume e: "(sid, sec) \<in> set secs1" and x: "x \<in> set (students sec)"
    and y: "y \<in> set (students sec)" and ne: "x \<noteq> y" and c: "y \<in> conflictSet pairs x"
  have wf1: "wfSections cfg secs1" by (rule placePreassigned_wf[OF buildSections_wf place])
  with e have m: "map_of secs1 sid = Some sec" by (simp add: wfSections_def)
  from placePreassigned_provenance[OF buildSections_wf place m x]
  obtain ids where "(x, ids) \<in> set pre" "sid \<in> set ids"
    by (auto dest!: map_of_SomeD buildSections_empty)
  from validatePreassigned_None[OF valid this m y] ne
  have "y \<notin> set (conflictsOf (buildConflictMap pairs) x)" by auto
  with c show False by (simp add: conflictsOf_build)
qed

lemma processStudent_coexist:
  assumes "coexist cfg pairs (run_sections st)"
    and "processStudent enrollments names prefs (buildConflictMap pairs) subjectsConfig cfg strategy c st
           = Inr st'"
  shows "coexist cfg pairs (run_sections st')"
proof -
  from assms(1) have m: "sectionsMatchConfig cfg (run_sections st)"
    and wf: "wfSections cfg (run_sections st)" and cf: "conflictFree pairs (run_sections st)"
    by (simp_all add: coexist_def wfSections_def)
  from processStudent_cases[OF m assms(2)] show ?thesis
  proof
    assume "run_sections st' = run_sections st"
    with assms(1) show ?thesis by simp
  next
    assume "\<exists>subs best. feasible (run_sections st) (set (conflictsOf (buildConflictMap pairs) c)) subs best \<and>
            run_sections st' = commitAssignment c best (run_sections st)"
    then obtain subs best where
      f: "feasible (run_sections st) (set (conflictsOf (buildConflictMap pairs) c)) subs best"
      and s: "run_sections st' = commitAssignment c best (run_sections st)" by blast
    from conflictFree_commit[OF wf cf f] wf s show ?thesis
      by (simp add: coexist_def commitAssignment_pushes wf_pushes)
  qed
qed

lemma run_conflictFree:
  assumes run: "scheduleStudents enrollments studentCourses studentCodeToName studentPreferences
       preassignedSections conflictPairs subjectsConfig scheduleConfig balancingStrategy = Inr res"
  shows "conflictFree conflictPairs (result_sections res)"
proof -
  from scheduleStudents_result[OF run] obtain sections1 st where
    place: "placePreassigned preassignedSections (buildSections subjectsConfig scheduleConfig) = Inr sections1"
    and valid: "validatePreassigned (buildConflictMap conflictPairs) sections1 preassignedSections = None"
    and loop: "scheduleLoop
       (processStudent enrollments studentCodeToName studentPreferences
          (buildConflictMap conflictPairs) subjectsConfig scheduleConfig balancingStrategy)
       (filter (\<lambda>code. code \<notin> fst ` set preassignedSections) (map fst enrollments))
       \<lparr>run_sections = sections1, run_unassignedStudents = [], run_combinationsChecked = 0\<rparr> = Inr st"
    and res: "res = assembleResult enrollments studentCourses studentCodeToName st"
    by blast
  have "coexist scheduleConfig conflictPairs sections1"
    using phase1_conflictFree[OF place valid] placePreassigned_wf[OF buildSections_wf place]
    by (simp add: coexist_def)
  then have "coexist scheduleConfig conflictPairs (run_sections
      \<lparr>run_sections = sections1, run_unassignedStudents = [], run_combinationsChecked = 0\<rparr>)"
    by simp
  from scheduleLoop_invariant[where I="\<lambda>st. coexist scheduleConfig conflictPairs (run_sections st)",
      OF processStudent_coexist this loop]
  show ?thesis by (simp add: res assembleResult_def coexist_def)
qed

section \<open>A student's sections lie in different blocks\<close>

lemma block_addOccupants: "block (addOccupants n c sec) = block sec"
  by (simp add: addOccupants_def)

lemma blockOf_pushes: "blockOf (pushes sids c secs) sid = blockOf secs sid"
  by (cases "map_of secs sid") (simp_all add: blockOf_def map_of_pushes block_addOccupants)

lemma blocks_pushes_other:
  assumes "distinct (map fst secs)" and "code \<noteq> c"
  shows "committedBlocks (pushes sids c secs) code = committedBlocks secs code"
proof -
  have "\<And>k sec. (code \<in> set (students (addOccupants (count_list sids k) c sec))) =
      (code \<in> set (students sec))"
    using assms(2) by (auto simp: students_addOccupants)
  then show ?thesis
    unfolding committedBlocks_def pushes_map[OF assms(1)]
    by (simp add: filter_map comp_def split_def block_addOccupants)
qed

lemma fresh_not_occupant:
  "c \<notin> occupants secs \<Longrightarrow> (sid, sec) \<in> set secs \<Longrightarrow> c \<notin> set (students sec)"
  by (auto simp: occupants_def)

lemma blocks_pushes_fresh:
  assumes dk: "distinct (map fst secs)" and fresh: "c \<notin> occupants secs"
  shows "committedBlocks (pushes sids c secs) c =
     map (\<lambda>(sid, sec). block sec) (filter (\<lambda>(sid, sec). sid \<in> set sids) secs)"
proof -
  have "filter (\<lambda>e. c \<in> set (students (addOccupants (count_list sids (fst e)) c (snd e)))) secs =
        filter (\<lambda>e. fst e \<in> set sids) secs"
  proof (rule filter_cong[OF refl])
    fix e assume e: "e \<in> set secs"
    then have "c \<notin> set (students (snd e))"
      using fresh_not_occupant[OF fresh, of "fst e" "snd e"] by simp
    then show "(c \<in> set (students (addOccupants (count_list sids (fst e)) c (snd e)))) =
        (fst e \<in> set sids)"
      by (simp add: students_addOccupants count_list_0_iff)
  qed
  then show ?thesis
    unfolding committedBlocks_def pushes_map[OF dk]
    by (simp add: filter_map comp_def split_def block_addOccupants)
qed

lemma distinct_chosen_blocks:
  assumes dk: "distinct (map fst secs)" and db: "distinct (map (blockOf secs) sids)"
  shows "distinct (map (\<lambda>(sid, sec). block sec) (filter (\<lambda>(sid, sec). sid \<in> set sids) secs))"
proof -
  from dk have ds: "distinct secs" by (simp add: distinct_map)
  from db have inj: "inj_on (blockOf secs) (set sids)" by (simp add: distinct_map)
  have "inj_on (\<lambda>(sid, sec). block sec) (set (filter (\<lambda>(sid, sec). sid \<in> set sids) secs))"
  proof (rule inj_onI, clarify)
    fix k1 s1 k2 s2
    assume a: "(k1, s1) \<in> set (filter (\<lambda>(sid, sec). sid \<in> set sids) secs)"
      and b: "(k2, s2) \<in> set (filter (\<lambda>(sid, sec). sid \<in> set sids) secs)"
      and e: "block s1 = block s2"
    from a b dk have m: "map_of secs k1 = Some s1" "map_of secs k2 = Some s2"
      and i: "k1 \<in> set sids" "k2 \<in> set sids" by auto
    from m e have "blockOf secs k1 = blockOf secs k2" by (simp add: blockOf_def)
    with inj i have "k1 = k2" by (auto dest: inj_onD)
    with m show "k1 = k2 \<and> s1 = s2" by simp
  qed
  with ds show ?thesis by (simp add: distinct_map)
qed

lemma blocks_after_placing:
  assumes dk: "distinct (map fst secs)" and fresh: "c \<notin> occupants secs"
    and db: "distinct (map (blockOf secs) sids)"
  shows "distinct (committedBlocks (pushes sids c secs) c)"
  unfolding blocks_pushes_fresh[OF dk fresh] by (rule distinct_chosen_blocks[OF dk db])

lemma feasible_blocks: "feasible secs confl subs best \<Longrightarrow> distinct (map (blockOf secs) (map snd best))"
  by (simp add: feasible_def chosenBlock_def[abs_def] blockOf_def[abs_def] comp_def)

lemma wf_keys: "wfSections cfg secs \<Longrightarrow> distinct (map fst secs)"
  by (simp add: wfSections_def)

lemma fresh_pushes: "distinct (map fst secs) \<Longrightarrow> x \<notin> occupants secs \<Longrightarrow> x \<noteq> c \<Longrightarrow>
   x \<notin> occupants (pushes sids c secs)"
  using occupants_pushes[of secs sids c] by auto

lemma placePreassigned_blocks:
  assumes "wfSections cfg secs" and "distinct (map fst pre)"
    and "placePreassigned pre secs = Inr secs'"
    and "\<forall>c \<in> fst ` set pre. c \<notin> occupants secs"
    and "case map_of pre code of None \<Rightarrow> True | Some ids \<Rightarrow> distinct (map (blockOf secs) ids)"
    and "distinct (committedBlocks secs code)"
  shows "distinct (committedBlocks secs' code)"
  using assms
proof (induction pre arbitrary: secs)
  case Nil
  then show ?case by simp
next
  case (Cons p pre)
  obtain c ids where p: "p = (c, ids)" by (cases p)
  from Cons.prems(3) p obtain s1 where a: "placeStudent c ids secs = Inr s1"
    and b: "placePreassigned pre s1 = Inr secs'"
    by (auto split: sum.splits)
  from placeStudent_pushes[OF a] have s1: "s1 = pushes ids c secs" .
  note dk = wf_keys[OF Cons.prems(1)]
  have wf1: "wfSections cfg s1" by (rule placeStudent_wf[OF Cons.prems(1) a])
  from Cons.prems(2) p have d: "distinct (map fst pre)" and cn: "c \<notin> fst ` set pre" by auto
  from Cons.prems(4) p have cf: "c \<notin> occupants secs" by simp
  have fr: "\<forall>c' \<in> fst ` set pre. c' \<notin> occupants s1"
  proof
    fix c' assume m: "c' \<in> fst ` set pre"
    with cn have "c' \<noteq> c" by auto
    moreover from m Cons.prems(4) have "c' \<notin> occupants secs" by auto
    ultimately show "c' \<notin> occupants s1" unfolding s1 using fresh_pushes[OF dk] by blast
  qed
  have bo: "\<And>l. map (blockOf s1) l = map (blockOf secs) l"
    unfolding s1 by (simp add: blockOf_pushes)
  have ok1: "case map_of pre code of None \<Rightarrow> True | Some ids \<Rightarrow> distinct (map (blockOf s1) ids)"
  proof (cases "code = c")
    case True
    with cn have "map_of pre code = None" by (simp add: map_of_eq_None_iff)
    then show ?thesis by simp
  next
    case False
    with Cons.prems(5) p show ?thesis by (cases "map_of pre code") (simp_all add: bo)
  qed
  have b1: "distinct (committedBlocks s1 code)"
  proof (cases "code = c")
    case True
    with Cons.prems(5) p have "distinct (map (blockOf secs) ids)" by simp
    from blocks_after_placing[OF dk cf this] True show ?thesis by (simp add: s1)
  next
    case False
    with Cons.prems(6) show ?thesis by (simp add: s1 blocks_pushes_other[OF dk])
  qed
  from Cons.IH[OF wf1 d b fr ok1 b1] show ?case .
qed

lemma placePreassigned_occupants:
  assumes wf: "wfSections cfg secs" and place: "placePreassigned pre secs = Inr secs'"
  shows "occupants secs' \<subseteq> occupants secs \<union> fst ` set pre"
proof
  fix x assume "x \<in> occupants secs'"
  then obtain sid sec' where e: "(sid, sec') \<in> set secs'" and x: "x \<in> set (students sec')"
    by (auto simp: occupants_def)
  have "wfSections cfg secs'" by (rule placePreassigned_wf[OF wf place])
  with e have m: "map_of secs' sid = Some sec'" by (simp add: wfSections_def)
  from placePreassigned_provenance[OF wf place m x]
  show "x \<in> occupants secs \<union> fst ` set pre"
    by (force simp: occupants_def dest: map_of_SomeD)
qed

lemma loop_blocks:
  assumes "wfSections cfg (run_sections st)" and "distinct cs"
    and "\<forall>c \<in> set cs. c \<notin> occupants (run_sections st)"
    and "distinct (committedBlocks (run_sections st) code)"
    and "scheduleLoop (processStudent enrollments names prefs cm subjectsConfig cfg strategy) cs st
           = Inr st'"
  shows "distinct (committedBlocks (run_sections st') code)"
  using assms
proof (induction cs arbitrary: st)
  case Nil
  then show ?case by simp
next
  case (Cons c cs)
  from Cons.prems(5) obtain st1 where
    b: "processStudent enrollments names prefs cm subjectsConfig cfg strategy c st = Inr st1"
    and r: "scheduleLoop (processStudent enrollments names prefs cm subjectsConfig cfg strategy) cs st1
           = Inr st'"
    by (auto split: sum.splits)
  note dk = wf_keys[OF Cons.prems(1)]
  from Cons.prems(1) have m: "sectionsMatchConfig cfg (run_sections st)"
    by (simp add: wfSections_def)
  from Cons.prems(2) have d: "distinct cs" and cn: "c \<notin> set cs" by auto
  from Cons.prems(3) have cf: "c \<notin> occupants (run_sections st)" by simp
  have "wfSections cfg (run_sections st1) \<and> (\<forall>c' \<in> set cs. c' \<notin> occupants (run_sections st1)) \<and>
        distinct (committedBlocks (run_sections st1) code)"
    using processStudent_cases[OF m b]
  proof
    assume "run_sections st1 = run_sections st"
    with Cons.prems show ?thesis by simp
  next
    assume "\<exists>subs best. feasible (run_sections st) (set (conflictsOf cm c)) subs best \<and>
            run_sections st1 = commitAssignment c best (run_sections st)"
    then obtain subs best where f: "feasible (run_sections st) (set (conflictsOf cm c)) subs best"
      and s: "run_sections st1 = pushes (map snd best) c (run_sections st)"
      by (auto simp: commitAssignment_pushes)
    have "wfSections cfg (run_sections st1)" unfolding s by (rule wf_pushes[OF Cons.prems(1)])
    moreover have "\<forall>c' \<in> set cs. c' \<notin> occupants (run_sections st1)"
    proof
      fix c' assume i: "c' \<in> set cs"
      with cn have "c' \<noteq> c" by auto
      moreover from i Cons.prems(3) have "c' \<notin> occupants (run_sections st)" by simp
      ultimately show "c' \<notin> occupants (run_sections st1)"
        unfolding s using fresh_pushes[OF dk] by blast
    qed
    moreover have "distinct (committedBlocks (run_sections st1) code)"
    proof (cases "code = c")
      case True
      from blocks_after_placing[OF dk cf feasible_blocks[OF f]] True show ?thesis by (simp add: s)
    next
      case False
      with Cons.prems(4) show ?thesis by (simp add: s blocks_pushes_other[OF dk])
    qed
    ultimately show ?thesis by blast
  qed
  then show ?case using Cons.IH[OF _ d _ _ r] by blast
qed

lemma buildSections_occupants: "occupants (buildSections subs cfg) = {}"
  using buildSections_empty[of _ _ subs cfg] by (fastforce simp: occupants_def)

lemma buildSections_blocks: "committedBlocks (buildSections subs cfg) code = []"
proof -
  have "filter (\<lambda>(sectionId, sec). code \<in> set (students sec)) (buildSections subs cfg) = []"
    using buildSections_empty[of _ _ subs cfg] by (auto simp: filter_empty_conv)
  then show ?thesis by (simp add: committedBlocks_def)
qed

lemma run_blocks:
  assumes run: "scheduleStudents enrollments studentCourses studentCodeToName studentPreferences
       preassignedSections conflictPairs subjectsConfig scheduleConfig balancingStrategy = Inr res"
    and de: "distinct (map fst enrollments)" and dp: "distinct (map fst preassignedSections)"
    and ok: "case map_of preassignedSections code of
               None \<Rightarrow> True
             | Some ids \<Rightarrow> distinct (map (blockOf (buildSections subjectsConfig scheduleConfig)) ids)"
  shows "distinct (committedBlocks (result_sections res) code)"
proof -
  let ?s0 = "buildSections subjectsConfig scheduleConfig"
  let ?cs = "filter (\<lambda>code. code \<notin> fst ` set preassignedSections) (map fst enrollments)"
  from scheduleStudents_result[OF run] obtain sections1 st where
    place: "placePreassigned preassignedSections ?s0 = Inr sections1"
    and loop: "scheduleLoop
       (processStudent enrollments studentCodeToName studentPreferences
          (buildConflictMap conflictPairs) subjectsConfig scheduleConfig balancingStrategy) ?cs
       \<lparr>run_sections = sections1, run_unassignedStudents = [], run_combinationsChecked = 0\<rparr> = Inr st"
    and res: "res = assembleResult enrollments studentCourses studentCodeToName st"
    by blast
  have wf0: "wfSections scheduleConfig ?s0" by (rule buildSections_wf)
  have wf1: "wfSections scheduleConfig sections1" by (rule placePreassigned_wf[OF wf0 place])
  have b1: "distinct (committedBlocks sections1 code)"
    by (rule placePreassigned_blocks[OF wf0 dp place _ ok])
       (simp_all add: buildSections_occupants buildSections_blocks)
  have fr: "\<forall>c \<in> set ?cs. c \<notin> occupants sections1"
    using placePreassigned_occupants[OF wf0 place] by (auto simp: buildSections_occupants)
  have dc: "distinct ?cs" using de by simp
  from loop_blocks[where st="\<lparr>run_sections = sections1, run_unassignedStudents = [],
        run_combinationsChecked = 0\<rparr>", OF _ dc _ _ loop] wf1 fr b1
  show ?thesis by (simp add: res assembleResult_def)
qed

section \<open>The complete example run\<close>

lemmas search_defs =
  findValidAssignments_def processSection_def conflictsOf_def isFull_def hasConflict_def Let_def
  exampleConfig_def example_sectionIds exampleSection_def

lemma example_conflictMap: "buildConflictMap [(''A'', ''B'')] = [(''A'', [''B'']), (''B'', [''A''])]"
  by (simp add: buildConflictMap_def addConflictPair_def setAdd_def Let_def)

lemma example_place:
  "placePreassigned [(''P'', [''1.1'', ''2.2''])] exampleSections = Inr examplePlaced"
  by (simp add: exampleSections_def examplePlaced_def exampleSection_def isFull_def pushStudent_def)

lemma example_validate:
  "validatePreassigned [(''A'', [''B'']), (''B'', [''A''])] examplePlaced
     [(''P'', [''1.1'', ''2.2''])] = None"
  by (simp add: conflictsOf_def)

lemma example_step_A:
  "processStudent exampleEnrollments Map.empty Map.empty [(''A'', [''B'']), (''B'', [''A''])]
     exampleSubjects exampleConfig speed ''A''
     \<lparr>run_sections = examplePlaced, run_unassignedStudents = [], run_combinationsChecked = 0\<rparr> =
   Inr \<lparr>run_sections = pushStudent ''2.1'' ''A'' (pushStudent ''1.2'' ''A'' examplePlaced),
        run_unassignedStudents = [], run_combinationsChecked = 2\<rparr>"
proof -
  have r: "resolveSubjects exampleSubjects [''ALGEBRA'', ''BIOLOGIA''] = [1, 2]"
    by (simp add: resolveSubjects_def exampleSubjects_def List.map_filter_def setAdd_def)
  have f: "findValidAssignments [1, 2] ''A'' [(''A'', [''B'']), (''B'', [''A''])]
      examplePlaced exampleConfig =
      [[(1, ''1.2''), (2, ''2.1'')], [(1, ''1.2''), (2, ''2.2'')]]"
    by (simp add: search_defs examplePlaced_def)
  have s: "selectBest (\<lambda>a. calculateAssignmentCost a (snapshotSizes examplePlaced) None
        exampleConfig speed)
        [[(1, ''1.2''), (2, ''2.1'')], [(1, ''1.2''), (2, ''2.2'')]] = Inr [(1, ''1.2''), (2, ''2.1'')]"
    by (simp add: selectBest_def calculateAssignmentCost_def baseCost_def sizeOrZero_def
        snapshotSizes_def examplePlaced_def exampleSection_def)
  show ?thesis
    by (simp add: processStudent_def exampleEnrollments_def r f s commitAssignment_def)
qed

lemma example_step_B:
  "processStudent exampleEnrollments Map.empty Map.empty [(''A'', [''B'']), (''B'', [''A''])]
     exampleSubjects exampleConfig speed ''B''
     \<lparr>run_sections = pushStudent ''2.1'' ''A'' (pushStudent ''1.2'' ''A'' examplePlaced),
        run_unassignedStudents = [], run_combinationsChecked = 2\<rparr> =
   Inr \<lparr>run_sections = exampleFinalSections,
        run_unassignedStudents = [], run_combinationsChecked = 3\<rparr>"
proof -
  let ?secs = "pushStudent ''2.1'' ''A'' (pushStudent ''1.2'' ''A'' examplePlaced)"
  have r: "resolveSubjects exampleSubjects [''BIOLOGIA''] = [2]"
    by (simp add: resolveSubjects_def exampleSubjects_def List.map_filter_def setAdd_def)
  have f: "findValidAssignments [2] ''B'' [(''A'', [''B'']), (''B'', [''A''])] ?secs exampleConfig =
      [[(2, ''2.2'')]]"
    by (simp add: search_defs examplePlaced_def pushStudent_def)
  have s: "selectBest (\<lambda>a. calculateAssignmentCost a (snapshotSizes ?secs) None exampleConfig speed)
        [[(2, ''2.2'')]] = Inr [(2, ''2.2'')]"
    by (simp add: selectBest_def calculateAssignmentCost_def)
  have c: "pushStudent ''2.2'' ''B'' ?secs = exampleFinalSections"
    by (simp add: exampleFinalSections_def examplePlaced_def exampleSection_def pushStudent_def)
  show ?thesis
    by (simp add: processStudent_def exampleEnrollments_def r f s commitAssignment_def c)
qed

lemma example_assemble:
  "assembleResult exampleEnrollments exampleCourses Map.empty
     \<lparr>run_sections = exampleFinalSections, run_unassignedStudents = [],
      run_combinationsChecked = 3\<rparr> = exampleResult"
  by (simp add: assembleResult_def exampleResult_def exampleFinalSections_def exampleSection_def
      exampleEnrollments_def exampleCourses_def assignedStudentsSet_def studentToSectionsMap_def
      addStudentSection_def buildStudentAssignments_def setAdd_def displayName_def)

lemma exampleRun_value: "exampleRun = Inr exampleResult"
proof -
  have l: "filter (\<lambda>code. code \<notin> fst ` set [(''P'', [''1.1'', ''2.2''])]) (map fst exampleEnrollments) =
      [''A'', ''B'']"
    by (simp add: exampleEnrollments_def)
  have loop: "scheduleLoop
      (processStudent exampleEnrollments Map.empty Map.empty [(''A'', [''B'']), (''B'', [''A''])]
         exampleSubjects exampleConfig speed) [''A'', ''B'']
      \<lparr>run_sections = examplePlaced, run_unassignedStudents = [],
       run_combinationsChecked = 0\<rparr> =
    Inr \<lparr>run_sections = exampleFinalSections, run_unassignedStudents = [],
         run_combinationsChecked = 3\<rparr>"
    by (simp add: example_step_A example_step_B)
  show ?thesis
    unfolding exampleRun_def scheduleStudents_def Let_def example_conflictMap example_buildSections
      example_place l example_validate loop sum.case option.case example_assemble
    by (rule refl)
qed

lemma example_occupants: "occupants exampleFinalSections = {''P'', ''A'', ''B''}"
  by (auto simp: occupants_def exampleFinalSections_def exampleSection_def)

section \<open>The run-level theorems\<close>

text \<open>
  C9. In the result of a completed run, a student who occupies a section but has no
  entry in \<open>studentCourses\<close> is counted by \<open>stats.assignedStudents\<close> (the number of
  distinct occupants of all sections) and has no entry in \<open>studentAssignments\<close>.
\<close>

theorem assigned_but_unlisted:
  assumes "scheduleStudents enrollments studentCourses studentCodeToName studentPreferences
       preassignedSections conflictPairs subjectsConfig scheduleConfig balancingStrategy = Inr res"
    and "code \<in> occupants (result_sections res)"
    and "studentCourses code = None"
  shows "assignedStudents (result_stats res) = card (occupants (result_sections res)) \<and>
         map_of (result_studentAssignments res) code = None"
proof -
  from scheduleStudents_result[OF assms(1)] obtain st where
    res: "res = assembleResult enrollments studentCourses studentCodeToName st" by blast
  show ?thesis unfolding res
    using assms(3) by (simp add: assembleResult_def assignedStudentsSet_length
        studentAssignments_unknown_course)
qed

theorem assigned_but_unlisted_witness:
  "exampleRun = Inr exampleResult \<and> ''B'' \<in> occupants (result_sections exampleResult) \<and>
   exampleCourses ''B'' = None \<and>
   assignedStudents (result_stats exampleResult) = 3 \<and>
   card (occupants (result_sections exampleResult)) = 3 \<and>
   map_of (result_studentAssignments exampleResult) ''B'' = None"
proof -
  have o: "''B'' \<in> occupants (result_sections exampleResult)"
    by (simp add: exampleResult_def example_occupants)
  have c: "exampleCourses ''B'' = None" by (simp add: exampleCourses_def)
  have n: "assignedStudents (result_stats exampleResult) = 3" by (simp add: exampleResult_def)
  from assigned_but_unlisted[OF exampleRun_value[unfolded exampleRun_def] o c] o c n
    exampleRun_value
  show ?thesis by simp
qed

text \<open>
  C4. When no section of the universe has a negative capacity, no section ever holds
  more occupants than its capacity: not after the placement of any number of preassigned
  students, not
  after the commits of any number of scheduled students, and not in the result of a
  completed run. Every single push keeps the bound: a preassignment push happens only
  into a section that is not full, and so does every push of a commit, also when only a
  part of the chosen assignment has been pushed.
\<close>

theorem capacity_never_exceeded:
  assumes "capacityNonNegative subjectsConfig scheduleConfig"
  shows "(\<forall>k sections1.
            placePreassigned (take k preassignedSections)
              (buildSections subjectsConfig scheduleConfig) = Inr sections1 \<longrightarrow>
            capacityRespected sections1) \<and>
         (\<forall>k sections1 st.
            placePreassigned preassignedSections
              (buildSections subjectsConfig scheduleConfig) = Inr sections1 \<longrightarrow>
            scheduleLoop
              (processStudent enrollments studentCodeToName studentPreferences
                 (buildConflictMap conflictPairs) subjectsConfig scheduleConfig balancingStrategy)
              (take k (filter (\<lambda>code. code \<notin> fst ` set preassignedSections) (map fst enrollments)))
              \<lparr>run_sections = sections1, run_unassignedStudents = [],
               run_combinationsChecked = 0\<rparr> = Inr st \<longrightarrow>
            capacityRespected (run_sections st)) \<and>
         (\<forall>res.
            scheduleStudents enrollments studentCourses studentCodeToName studentPreferences
              preassignedSections conflictPairs subjectsConfig scheduleConfig balancingStrategy
              = Inr res \<longrightarrow>
            capacityRespected (result_sections res)) \<and>
         (\<forall>sections sectionId sec studentCode.
            sound scheduleConfig sections \<longrightarrow> map_of sections sectionId = Some sec \<longrightarrow>
            \<not> isFull sec \<longrightarrow>
            sound scheduleConfig (pushStudent sectionId studentCode sections)) \<and>
         (\<forall>sections studentSubjects studentCode conflictMap best n.
            sound scheduleConfig sections \<longrightarrow> distinct studentSubjects \<longrightarrow>
            best \<in> set (findValidAssignments studentSubjects studentCode conflictMap sections
                         scheduleConfig) \<longrightarrow>
            sound scheduleConfig (commitAssignment studentCode (take n best) sections))"
proof -
  let ?s0 = "buildSections subjectsConfig scheduleConfig"
  let ?body = "processStudent enrollments studentCodeToName studentPreferences
                 (buildConflictMap conflictPairs) subjectsConfig scheduleConfig balancingStrategy"
  note s0 = buildSections_sound[OF assms]
  have a: "\<And>pre sections1. placePreassigned pre ?s0 = Inr sections1 \<Longrightarrow> sound scheduleConfig sections1"
    by (rule placePreassigned_sound[OF s0])
  have b: "\<And>cs sections1 st. placePreassigned preassignedSections ?s0 = Inr sections1 \<Longrightarrow>
      scheduleLoop ?body cs \<lparr>run_sections = sections1, run_unassignedStudents = [],
               run_combinationsChecked = 0\<rparr> = Inr st \<Longrightarrow> sound scheduleConfig (run_sections st)"
  proof -
    fix cs sections1 st
    assume p: "placePreassigned preassignedSections ?s0 = Inr sections1"
      and l: "scheduleLoop ?body cs \<lparr>run_sections = sections1, run_unassignedStudents = [],
               run_combinationsChecked = 0\<rparr> = Inr st"
    from a[OF p] have "sound scheduleConfig (run_sections \<lparr>run_sections = sections1,
        run_unassignedStudents = [], run_combinationsChecked = 0\<rparr>)" by simp
    from scheduleLoop_invariant[where I="\<lambda>st. sound scheduleConfig (run_sections st)",
        OF processStudent_sound this l]
    show "sound scheduleConfig (run_sections st)" .
  qed
  have c: "\<And>res. scheduleStudents enrollments studentCourses studentCodeToName studentPreferences
              preassignedSections conflictPairs subjectsConfig scheduleConfig balancingStrategy
              = Inr res \<Longrightarrow> capacityRespected (result_sections res)"
  proof -
    fix res
    assume "scheduleStudents enrollments studentCourses studentCodeToName studentPreferences
              preassignedSections conflictPairs subjectsConfig scheduleConfig balancingStrategy
              = Inr res"
    from scheduleStudents_result[OF this] obtain sections1 st where
      "placePreassigned preassignedSections ?s0 = Inr sections1"
      "scheduleLoop ?body
         (filter (\<lambda>code. code \<notin> fst ` set preassignedSections) (map fst enrollments))
         \<lparr>run_sections = sections1, run_unassignedStudents = [], run_combinationsChecked = 0\<rparr>
         = Inr st"
      "res = assembleResult enrollments studentCourses studentCodeToName st"
      by blast
    with b show "capacityRespected (result_sections res)"
      by (auto simp: assembleResult_def sound_def)
  qed
  have d: "\<And>sections sectionId sec studentCode.
            sound scheduleConfig sections \<Longrightarrow> map_of sections sectionId = Some sec \<Longrightarrow>
            \<not> isFull sec \<Longrightarrow> sound scheduleConfig (pushStudent sectionId studentCode sections)"
    by (auto simp: sound_def wf_pushStudent intro: capacity_pushStudent)
  have e: "\<And>sections studentSubjects studentCode conflictMap best n.
            sound scheduleConfig sections \<Longrightarrow> distinct studentSubjects \<Longrightarrow>
            best \<in> set (findValidAssignments studentSubjects studentCode conflictMap sections
                         scheduleConfig) \<Longrightarrow>
            sound scheduleConfig (commitAssignment studentCode (take n best) sections)"
  proof -
    fix sections studentSubjects studentCode conflictMap best n
    assume s: "sound scheduleConfig sections" and ds: "distinct studentSubjects"
      and m: "best \<in> set (findValidAssignments studentSubjects studentCode conflictMap sections
                         scheduleConfig)"
    from s have wf: "wfSections scheduleConfig sections" and cap: "capacityRespected sections"
      and mc: "sectionsMatchConfig scheduleConfig sections"
      by (simp_all add: sound_def wfSections_def)
    from search_exact[OF mc ds, of studentCode conflictMap] m
    have f: "feasible sections (set (conflictsOf conflictMap studentCode)) studentSubjects best" by simp
    have dt: "distinct (map snd (take n best))"
      using feasible_sids_distinct[OF f] by (simp add: take_map[symmetric])
    have "capacityRespected (pushes (map snd (take n best)) studentCode sections)"
    proof (rule capacity_pushes[OF wf cap dt], intro ballI allI impI)
      fix sid sec assume i: "sid \<in> set (map snd (take n best))"
        and ms: "map_of sections sid = Some sec"
      from i obtain subj where "(subj, sid) \<in> set (take n best)" by auto
      then have "(subj, sid) \<in> set best" by (rule in_set_takeD)
      with f ms show "\<not> isFull sec" by (fastforce simp: feasible_def isFull_def)
    qed
    with wf show "sound scheduleConfig (commitAssignment studentCode (take n best) sections)"
      by (simp add: sound_def commitAssignment_pushes wf_pushes)
  qed
  from a b c d e show ?thesis by (simp add: sound_def)
qed

theorem capacity_never_exceeded_witness:
  "capacityNonNegative exampleSubjects exampleConfig \<and> exampleRun = Inr exampleResult \<and>
   capacityRespected (result_sections exampleResult) \<and>
   map (\<lambda>(sectionId, sec). (length (students sec), capacity sec)) (result_sections exampleResult) =
     [(1, 1), (1, 1), (1, 2), (2, 2), (0, 1), (0, 1)]"
proof -
  have n: "capacityNonNegative exampleSubjects exampleConfig"
    by (simp add: capacityNonNegative_def example_buildSections exampleSections_def
        exampleSection_def)
  have v: "map (\<lambda>(sectionId, sec). (length (students sec), capacity sec))
      (result_sections exampleResult) = [(1, 1), (1, 1), (1, 2), (2, 2), (0, 1), (0, 1)]"
    by (simp add: exampleResult_def exampleFinalSections_def exampleSection_def)
  from capacity_never_exceeded[OF n, of "[(''P'', [''1.1'', ''2.2''])]"
      exampleEnrollments Map.empty Map.empty "[(''A'', ''B'')]" speed exampleCourses]
  have "capacityRespected (result_sections exampleResult)"
    using exampleRun_value[unfolded exampleRun_def] by blast
  with n v exampleRun_value show ?thesis by simp
qed

text \<open>
  C5. At the end of a completed run, no section holds both students of a conflict pair
  of two different students. (A pair of a student with itself constrains nothing: the
  check of the preassigned students skips the student's own code, and the search only
  looks at the occupants that are already there.)
\<close>

theorem no_conflicting_pair_shares_section:
  assumes "scheduleStudents enrollments studentCourses studentCodeToName studentPreferences
       preassignedSections conflictPairs subjectsConfig scheduleConfig balancingStrategy = Inr res"
    and "(a, b) \<in> set conflictPairs" and "a \<noteq> b"
    and "(sectionId, sec) \<in> set (result_sections res)"
  shows "\<not> (a \<in> set (students sec) \<and> b \<in> set (students sec))"
proof
  assume "a \<in> set (students sec) \<and> b \<in> set (students sec)"
  moreover from assms(2) have "b \<in> conflictSet conflictPairs a" by (simp add: conflictSet_def)
  ultimately show False using run_conflictFree[OF assms(1)] assms(3,4)
    by (auto simp: conflictFree_def)
qed

theorem no_conflicting_pair_shares_section_witness:
  "exampleRun = Inr exampleResult \<and> (''A'', ''B'') \<in> set [(''A'', ''B'')] \<and> ''A'' \<noteq> ''B'' \<and>
   (''2.1'', exampleSection ''2.1'' 2 ''BIOLOGIA'' 1 [''A''] 2) \<in> set (result_sections exampleResult) \<and>
   \<not> (''A'' \<in> set (students (exampleSection ''2.1'' 2 ''BIOLOGIA'' 1 [''A''] 2)) \<and>
      ''B'' \<in> set (students (exampleSection ''2.1'' 2 ''BIOLOGIA'' 1 [''A''] 2)))"
proof -
  have p: "(''A'', ''B'') \<in> set [(''A'', ''B'')]" and ne: "''A'' \<noteq> ''B''" by simp_all
  have m: "(''2.1'', exampleSection ''2.1'' 2 ''BIOLOGIA'' 1 [''A''] 2)
      \<in> set (result_sections exampleResult)"
    by (simp add: exampleResult_def exampleFinalSections_def)
  from no_conflicting_pair_shares_section[OF exampleRun_value[unfolded exampleRun_def] p ne m]
    p ne m exampleRun_value
  show ?thesis by simp
qed

text \<open>
  C3 (as the code has it). In the result of a completed run whose input maps have each
  key once, the sections that hold a student lie in pairwise different blocks, for every
  student placed by the search, and for every preassigned student whose preassigned
  section list has pairwise different blocks; \<open>scheduleStudents\<close> itself does not check
  the blocks of a preassigned list.
\<close>

theorem committed_blocks_distinct:
  assumes "scheduleStudents enrollments studentCourses studentCodeToName studentPreferences
       preassignedSections conflictPairs subjectsConfig scheduleConfig balancingStrategy = Inr res"
    and "distinct (map fst enrollments)" and "distinct (map fst preassignedSections)"
    and "case map_of preassignedSections code of
           None \<Rightarrow> True
         | Some ids \<Rightarrow> distinct (map (blockOf (buildSections subjectsConfig scheduleConfig)) ids)"
  shows "distinct (committedBlocks (result_sections res) code)"
  using assms by (rule run_blocks)

theorem committed_blocks_distinct_witness:
  "exampleRun = Inr exampleResult \<and> distinct (map fst exampleEnrollments) \<and>
   map_of [(''P'', [''1.1'', ''2.2''])] ''P'' = Some [''1.1'', ''2.2''] \<and>
   map (blockOf (buildSections exampleSubjects exampleConfig)) [''1.1'', ''2.2''] = [Some 1, Some 3] \<and>
   committedBlocks (result_sections exampleResult) ''P'' = [1, 3] \<and>
   committedBlocks (result_sections exampleResult) ''A'' = [2, 1] \<and>
   distinct (committedBlocks (result_sections exampleResult) ''P'')"
proof -
  have de: "distinct (map fst exampleEnrollments)" by (simp add: exampleEnrollments_def)
  have dp: "distinct (map fst [(''P'', [''1.1'', ''2.2''])])" by simp
  have b: "map (blockOf (buildSections exampleSubjects exampleConfig)) [''1.1'', ''2.2'']
      = [Some 1, Some 3]"
    by (simp add: example_buildSections blockOf_def exampleSections_def exampleSection_def)
  then have ok: "case map_of [(''P'', [''1.1'', ''2.2''])] ''P'' of
           None \<Rightarrow> True
         | Some ids \<Rightarrow> distinct (map (blockOf (buildSections exampleSubjects exampleConfig)) ids)"
    by simp
  have v: "committedBlocks (result_sections exampleResult) ''P'' = [1, 3]"
    "committedBlocks (result_sections exampleResult) ''A'' = [2, 1]"
    by (simp_all add: committedBlocks_def exampleResult_def exampleFinalSections_def
        exampleSection_def)
  from committed_blocks_distinct[OF exampleRun_value[unfolded exampleRun_def] de dp ok]
    de b v exampleRun_value
  show ?thesis by simp
qed

text \<open>
  The claim as stated fails for preassigned students: P, preassigned to sections 1.1 and
  2.1, which are both in block 1, is placed in both by a run that completes.
\<close>

theorem committed_blocks_counterexample:
  "(case scheduleStudents [(''P'', [''ALGEBRA'', ''BIOLOGIA''])] Map.empty Map.empty Map.empty
           [(''P'', [''1.1'', ''2.1''])] [] exampleSubjects exampleConfig speed of
      Inl e \<Rightarrow> []
    | Inr res \<Rightarrow> committedBlocks (result_sections res) ''P'') = [1, 1]"
proof -
  have p: "placePreassigned [(''P'', [''1.1'', ''2.1''])] exampleSections =
      Inr (pushStudent ''2.1'' ''P'' (pushStudent ''1.1'' ''P'' exampleSections))"
    by (simp add: exampleSections_def exampleSection_def isFull_def pushStudent_def)
  have c: "buildConflictMap [] = []" by (simp add: buildConflictMap_def)
  have v: "validatePreassigned [] (pushStudent ''2.1'' ''P'' (pushStudent ''1.1'' ''P'' exampleSections))
      [(''P'', [''1.1'', ''2.1''])] = None"
    by (simp add: conflictsOf_def)
  have l: "filter (\<lambda>code. code \<notin> fst ` set [(''P'', [''1.1'', ''2.1''])])
      (map fst [(''P'', [''ALGEBRA'', ''BIOLOGIA''])]) = []"
    by simp
  have b: "committedBlocks (pushStudent ''2.1'' ''P'' (pushStudent ''1.1'' ''P'' exampleSections)) ''P''
      = [1, 1]"
    by (simp add: committedBlocks_def exampleSections_def exampleSection_def pushStudent_def)
  show ?thesis
    unfolding scheduleStudents_def Let_def example_buildSections p c v l sum.case option.case
      scheduleLoop.simps
    by (simp add: assembleResult_def b)
qed

end
